theory Spec2Isabelle
  imports Complex_Main "HOL-Library.Word" "HOL-Library.Sublist" "HOL-Library.Multiset"
begin

unbundle bit_operations_syntax

chapter \<open>The model\<close>

section \<open>Strings\<close>

text \<open>
  A JavaScript string is modelled as a list of 8-bit characters, each standing for the code
  unit of the same number (the Latin-1 range).  \<^verbatim>\<open>charCodeAt\<close> reads that number.
\<close>

definition charCode :: "char \<Rightarrow> nat" where
  "charCode c = of_char c"

text \<open>White space as \<^verbatim>\<open>trim\<close> and the regular-expression class \<^verbatim>\<open>\s\<close> see it.\<close>

definition isSpace :: "char \<Rightarrow> bool" where
  "isSpace c = (charCode c \<in> {9, 10, 11, 12, 13, 32, 160})"

definition trimStart :: "string \<Rightarrow> string" where
  "trimStart s = dropWhile isSpace s"

definition trimEnd :: "string \<Rightarrow> string" where
  "trimEnd s = rev (dropWhile isSpace (rev s))"

definition trim :: "string \<Rightarrow> string" where
  "trim s = trimEnd (trimStart s)"

text \<open>
  Lower case on code units: the capital letters of ASCII and of Latin-1 move up by 32.
\<close>

definition lowerCode :: "nat \<Rightarrow> nat" where
  "lowerCode n =
     (if (65 \<le> n \<and> n \<le> 90) \<or> (192 \<le> n \<and> n \<le> 222 \<and> n \<noteq> 215) then n + 32 else n)"

definition lowerChar :: "char \<Rightarrow> char" where
  "lowerChar c = char_of (lowerCode (charCode c))"

definition toLowerCase :: "string \<Rightarrow> string" where
  "toLowerCase s = map lowerChar s"

text \<open>The classes \<^verbatim>\<open>\w\<close>, \<^verbatim>\<open>\d\<close> and, under the flag \<^verbatim>\<open>i\<close>, \<^verbatim>\<open>[A-Z]\<close>.\<close>

definition isWordChar :: "char \<Rightarrow> bool" where
  "isWordChar c =
     (let n = charCode c
      in (48 \<le> n \<and> n \<le> 57) \<or> (65 \<le> n \<and> n \<le> 90) \<or> n = 95 \<or> (97 \<le> n \<and> n \<le> 122))"

definition isDigit :: "char \<Rightarrow> bool" where
  "isDigit c = (48 \<le> charCode c \<and> charCode c \<le> 57)"

definition isLetter :: "char \<Rightarrow> bool" where
  "isLetter c = ((65 \<le> charCode c \<and> charCode c \<le> 90) \<or> (97 \<le> charCode c \<and> charCode c \<le> 122))"

text \<open>A literal pattern, matched at the start of the string without regard to case.\<close>

fun prefixCI :: "string \<Rightarrow> string \<Rightarrow> bool" where
  "prefixCI [] s = True"
| "prefixCI (p # ps) [] = False"
| "prefixCI (p # ps) (c # cs) =
     (if lowerCode (charCode p) = lowerCode (charCode c) then prefixCI ps cs else False)"

text \<open>\<^verbatim>\<open>s.includes(sub)\<close>.\<close>

fun js_includes :: "string \<Rightarrow> string \<Rightarrow> bool" where
  "js_includes [] sub = (sub = [])"
| "js_includes (c # cs) sub = (prefix sub (c # cs) \<or> js_includes cs sub)"

text \<open>\<^verbatim>\<open>strs.join(sep)\<close>.\<close>

fun join :: "string \<Rightarrow> string list \<Rightarrow> string" where
  "join sep [] = []"
| "join sep [x] = x"
| "join sep (x # y # ys) = x @ sep @ join sep (y # ys)"

text \<open>
  Numbers in template literals.  Page numbers and segment indices are integers, printed in
  decimal, a negative one with a leading minus sign.
\<close>

definition digitChar :: "nat \<Rightarrow> char" where
  "digitChar d = char_of (48 + d)"

fun natStr :: "nat \<Rightarrow> string" where
  "natStr n = (if n < 10 then [digitChar n] else natStr (n div 10) @ [digitChar (n mod 10)])"

declare natStr.simps [simp del]

definition numStr :: "int \<Rightarrow> string" where
  "numStr i = (if i < 0 then CHR ''-'' # natStr (nat (- i)) else natStr (nat i))"

text \<open>The value of a string of decimal digits.\<close>

definition digitVal :: "string \<Rightarrow> nat" where
  "digitVal s = foldl (\<lambda>v c. 10 * v + (of_char c - 48)) 0 s"

section \<open>Arrays\<close>

text \<open>
  \<^verbatim>\<open>xs.slice(0, e)\<close> for an integral \<^verbatim>\<open>e\<close>: a negative end counts from the end of the array.
\<close>

definition js_slice0 :: "int \<Rightarrow> 'a list \<Rightarrow> 'a list" where
  "js_slice0 e xs = (if e < 0 then take (nat (int (length xs) + e)) xs else take (nat e) xs)"

text \<open>
  \<^verbatim>\<open>xs.sort(cmp)\<close> is a stable sort (ECMAScript 2019): an element goes before the first
  element that the comparator does not put in front of it.
\<close>

fun insert_by :: "('a \<Rightarrow> 'a \<Rightarrow> real) \<Rightarrow> 'a \<Rightarrow> 'a list \<Rightarrow> 'a list" where
  "insert_by cmp x [] = [x]"
| "insert_by cmp x (y # ys) = (if cmp x y \<le> 0 then x # y # ys else y # insert_by cmp x ys)"

definition js_sort :: "('a \<Rightarrow> 'a \<Rightarrow> real) \<Rightarrow> 'a list \<Rightarrow> 'a list" where
  "js_sort cmp xs = foldr (insert_by cmp) xs []"

section \<open>Data model (\<^verbatim>\<open>types.ts\<close>)\<close>

text \<open>
  The \<^verbatim>\<open>Chunk\<close> interface; optional fields are options.  The fields \<^verbatim>\<open>id\<close>, \<^verbatim>\<open>text\<close> and
  \<^verbatim>\<open>section\<close> carry the prefix \<open>chunk_\<close>, and the \<^verbatim>\<open>context\<close> of a retrieval result is
  \<open>context_str\<close>, because the bare names are taken.
\<close>

record chunk =
  chunk_id :: string
  chunk_text :: string
  chunk_section :: "string option"
  page :: int
  embedding :: "real list option"
  isSpecPriority :: "bool option"

record scoredChunk =
  chunk :: chunk
  score :: real


text \<open>A thrown \<^verbatim>\<open>Error\<close> object: its \<^verbatim>\<open>name\<close> (the class) and its \<^verbatim>\<open>message\<close>.\<close>

record js_error =
  name :: string
  message :: string

definition Error :: "string \<Rightarrow> js_error" where
  "Error msg = \<lparr>name = ''Error'', message = msg\<rparr>"

section \<open>Layout reconstruction (\<^verbatim>\<open>DocumentProcessor.extractTextWithStructure\<close>)\<close>

text \<open>
  A text item of PDF.js: its string and the two translation entries of its transform,
  \<^verbatim>\<open>transform[4]\<close> (horizontal) and \<^verbatim>\<open>transform[5]\<close> (vertical), as real numbers.
\<close>

record text_item =
  str :: string
  transform4 :: real
  transform5 :: real

definition ROW_DELTA :: int where
  "ROW_DELTA = 3"

text \<open>
  \<^verbatim>\<open>lineMap\<close> is a \<^verbatim>\<open>Map\<close> from a row's key to its items.  A \<^verbatim>\<open>Map\<close> lists its keys in
  insertion order, so it is an association list in that order.
\<close>

type_synonym lineMap = "(int \<times> text_item list) list"

text \<open>
  The body of \<^verbatim>\<open>items.forEach\<close>: the vertical coordinate is rounded, the keys are searched
  in order with \<^verbatim>\<open>find\<close>, and the item is pushed to the row found or starts a row of its own.
\<close>

definition addItem :: "lineMap \<Rightarrow> text_item \<Rightarrow> lineMap" where
  "addItem lineMap item =
     (let y = round (transform5 item)
      in case find (\<lambda>k. \<bar>k - y\<bar> < ROW_DELTA) (map fst lineMap) of
           None \<Rightarrow> lineMap @ [(y, [item])]
         | Some existingKey \<Rightarrow>
             map (\<lambda>(k, row). if k = existingKey then (k, row @ [item]) else (k, row)) lineMap)"

definition groupItems :: "text_item list \<Rightarrow> lineMap" where
  "groupItems items = foldl addItem [] items"

text \<open>\<^verbatim>\<open>Array.from(lineMap.keys()).sort((a, b) => b - a)\<close>.\<close>

definition rowOrder :: "lineMap \<Rightarrow> int list" where
  "rowOrder lineMap = js_sort (\<lambda>a b. real_of_int b - real_of_int a) (map fst lineMap)"

text \<open>\<^verbatim>\<open>.sort((a, b) => a.transform[4] - b.transform[4])\<close> on a row.\<close>

definition leftToRight :: "text_item list \<Rightarrow> text_item list" where
  "leftToRight row = js_sort (\<lambda>a b. transform4 a - transform4 b) row"

text \<open>\<^verbatim>\<open>.map((item) => item.str.trim()).filter(Boolean).join("  ")\<close>.\<close>

definition rowText :: "text_item list \<Rightarrow> string" where
  "rowText row =
     join ''  '' (filter (\<lambda>s. s \<noteq> []) (map (\<lambda>item. trim (str item)) (leftToRight row)))"

definition pageText :: "lineMap \<Rightarrow> string" where
  "pageText lineMap =
     join ''\<newline>''
       (filter (\<lambda>line. 0 < length (trim line))
          (map (\<lambda>y. rowText (the (map_of lineMap y))) (rowOrder lineMap)))"

text \<open>
  The specification's wording of the same step, for comparison: the fragment texts of a row
  joined with a double space, the rows joined with newlines, nothing trimmed or dropped.
\<close>

definition spec_pageText :: "lineMap \<Rightarrow> string" where
  "spec_pageText lineMap =
     join ''\<newline>''
       (map (\<lambda>y. join ''  '' (map str (leftToRight (the (map_of lineMap y))))) (rowOrder lineMap))"

section \<open>Chunking (\<^verbatim>\<open>DocumentProcessor.generateSemanticChunks\<close>)\<close>

text \<open>
  The chunker consults three regular expressions.  What they return is an argument of the
  model: the result of \<^verbatim>\<open>page.content.match(SECTION_HEADER)\<close> (the two groups), of
  \<^verbatim>\<open>page.content.split(...)\<close> and of \<^verbatim>\<open>SPEC_VALUE_PATTERN.test(clean)\<close>.
\<close>

record patterns =
  sectionHeader :: "string \<Rightarrow> (string \<times> string) option"
  segmentSplit :: "string \<Rightarrow> string list"
  specValue :: "string \<Rightarrow> bool"

record page_entry =
  num :: int
  content :: string

text \<open>The section a page belongs to: the header found on it, or else the one carried over.\<close>

definition nextSection :: "patterns \<Rightarrow> string \<Rightarrow> page_entry \<Rightarrow> string" where
  "nextSection rx activeSection pg =
     (case sectionHeader rx (content pg) of
        None \<Rightarrow> activeSection
      | Some (code, title) \<Rightarrow> code @ '': '' @ trim title)"

text \<open>The body of \<^verbatim>\<open>segments.forEach((seg, sIdx) => ...)\<close>: a short segment adds nothing.\<close>

definition segmentChunk :: "patterns \<Rightarrow> string \<Rightarrow> page_entry \<Rightarrow> nat \<times> string \<Rightarrow> chunk option" where
  "segmentChunk rx activeSection pg = (\<lambda>(sIdx, seg).
     (let clean = trim seg
      in if length clean < 30 then None
         else Some \<lparr>chunk_id = ''p'' @ numStr (num pg) @ ''-s'' @ natStr sIdx,
                    chunk_text = ''SECTION: '' @ activeSection @ ''\<newline>PAGE: '' @ numStr (num pg)
                                   @ ''\<newline>CONTENT: '' @ clean,
                    chunk_section = Some activeSection,
                    page = num pg,
                    embedding = None,
                    isSpecPriority = Some (specValue rx clean)\<rparr>))"

definition pageChunks :: "patterns \<Rightarrow> string \<Rightarrow> page_entry \<Rightarrow> chunk list" where
  "pageChunks rx activeSection pg =
     List.map_filter (segmentChunk rx activeSection pg) (enumerate 0 (segmentSplit rx (content pg)))"

text \<open>\<^verbatim>\<open>pages.forEach\<close>, threading \<^verbatim>\<open>activeSection\<close> from page to page.\<close>

fun collectChunks :: "patterns \<Rightarrow> string \<Rightarrow> page_entry list \<Rightarrow> chunk list" where
  "collectChunks rx activeSection [] = []"
| "collectChunks rx activeSection (pg # pgs) =
     (let activeSection = nextSection rx activeSection pg
      in pageChunks rx activeSection pg @ collectChunks rx activeSection pgs)"

definition allChunks :: "patterns \<Rightarrow> page_entry list \<Rightarrow> chunk list" where
  "allChunks rx pages = collectChunks rx ''GENERAL INFORMATION'' pages"

text \<open>The truthiness test \<^verbatim>\<open>c.isSpecPriority\<close>.\<close>

definition specPriority :: "chunk \<Rightarrow> bool" where
  "specPriority c = (isSpecPriority c = Some True)"

definition specChunks :: "patterns \<Rightarrow> page_entry list \<Rightarrow> chunk list" where
  "specChunks rx pages = filter specPriority (allChunks rx pages)"

definition generalChunks :: "patterns \<Rightarrow> page_entry list \<Rightarrow> chunk list" where
  "generalChunks rx pages = filter (\<lambda>c. \<not> specPriority c) (allChunks rx pages)"

text \<open>
  \<^verbatim>\<open>[...specChunks, ...generalChunks.slice(0, Math.max(0, maxChunks - specChunks.length))]
  .slice(0, maxChunks)\<close>
\<close>

definition generateSemanticChunks :: "patterns \<Rightarrow> page_entry list \<Rightarrow> int \<Rightarrow> chunk list" where
  "generateSemanticChunks rx pages maxChunks =
     js_slice0 maxChunks
       (specChunks rx pages
          @ js_slice0 (max 0 (maxChunks - int (length (specChunks rx pages)))) (generalChunks rx pages))"

subsection \<open>The three regular expressions of the source\<close>

text \<open>
  \<^verbatim>\<open>SPEC_VALUE_PATTERN\<close>: at a word boundary a run of digits, optionally a point and more
  digits, white space, one of the unit tokens, and a word boundary again.
\<close>

definition unitTokens :: "string list" where
  "unitTokens = [''Nm'', [CHR ''N'', CHR 0xB7, CHR ''m''], ''lb-ft'', ''ft-lb'', ''liter'', ''liters'',
                 ''qt'', ''quart'', ''psi'', ''bar'', ''mm'', ''pt'']"

definition unitMatches :: "string \<Rightarrow> string \<Rightarrow> bool" where
  "unitMatches u s =
     (if prefixCI u s then (case drop (length u) s of [] \<Rightarrow> True | c # _ \<Rightarrow> \<not> isWordChar c)
      else False)"

definition unitAt :: "string \<Rightarrow> bool" where
  "unitAt s = list_ex (\<lambda>u. unitMatches u s) unitTokens"

definition valueAt :: "string \<Rightarrow> bool" where
  "valueAt s =
     (if takeWhile isDigit s = [] then False
      else (let r = dropWhile isDigit s
            in if unitAt (dropWhile isSpace r) then True
               else (case r of
                       [] \<Rightarrow> False
                     | c # r' \<Rightarrow>
                         if c = CHR ''.'' \<and> takeWhile isDigit r' \<noteq> []
                         then unitAt (dropWhile isSpace (dropWhile isDigit r'))
                         else False)))"

fun specValueScan :: "bool \<Rightarrow> string \<Rightarrow> bool" where
  "specValueScan boundary [] = False"
| "specValueScan boundary (c # cs) =
     (if boundary
      then (if valueAt (c # cs) then True else specValueScan (\<not> isWordChar c) cs)
      else specValueScan (\<not> isWordChar c) cs)"

definition SPEC_VALUE_PATTERN_test :: "string \<Rightarrow> bool" where
  "SPEC_VALUE_PATTERN_test s = specValueScan True s"

text \<open>
  The split pattern is a lookahead for one of five sub-headers; \<^verbatim>\<open>split\<close> cuts before every
  position but the first at which it holds.
\<close>

definition subHeaderAt :: "string \<Rightarrow> bool" where
  "subHeaderAt s =
     (prefixCI ''TORQUE SPECIFICATION'' s \<or> prefixCI ''GENERAL SPECIFICATION'' s \<or>
      prefixCI ''FLUID CAPACIT'' s \<or> prefixCI ''CAPACITIES\<newline>'' s \<or>
      (prefixCI ''Torque'' s \<and> CHR ''\<newline>'' \<in> set (takeWhile isSpace (drop 6 s))))"

fun splitLoop :: "string \<Rightarrow> string \<Rightarrow> string list" where
  "splitLoop cur [] = [cur]"
| "splitLoop cur (c # cs) =
     (if subHeaderAt (c # cs) then cur # splitLoop [c] cs else splitLoop (cur @ [c]) cs)"

definition subHeaderSplit :: "string \<Rightarrow> string list" where
  "subHeaderSplit s = (case s of [] \<Rightarrow> [[]] | c # cs \<Rightarrow> splitLoop [c] cs)"

text \<open>
  \<^verbatim>\<open>SECTION_HEADER\<close>: the keyword, white space, the code \<^verbatim>\<open>\d+-\d+[A-Z]?\<close>, an optional
  colon, white space, and a title of a letter followed by letters, white space and hyphens.
  The first position at which all of it matches gives the two groups.
\<close>

definition titleAfter :: "string \<Rightarrow> string option" where
  "titleAfter r =
     (let r = (case r of [] \<Rightarrow> [] | c # r' \<Rightarrow> if c = CHR '':'' then r' else c # r')
      in if takeWhile isSpace r = [] then None
         else (case dropWhile isSpace r of
                 [] \<Rightarrow> None
               | l # r' \<Rightarrow>
                   (let run = takeWhile (\<lambda>c. isLetter c \<or> isSpace c \<or> c = CHR ''-'') r'
                    in if isLetter l \<and> run \<noteq> [] then Some (l # run) else None)))"

definition headerAt :: "string \<Rightarrow> (string \<times> string) option" where
  "headerAt s =
     (if \<not> (prefixCI ''SECTION'' s \<or> prefixCI ''GROUP'' s) then None
      else (let r = drop (if prefixCI ''SECTION'' s then 7 else 5) s;
                r1 = dropWhile isSpace r;
                d1 = takeWhile isDigit r1;
                r2 = dropWhile isDigit r1
            in if takeWhile isSpace r = [] \<or> d1 = [] then None
               else (case r2 of
                       [] \<Rightarrow> None
                     | h # r3 \<Rightarrow>
                         (let d2 = takeWhile isDigit r3;
                              r4 = dropWhile isDigit r3;
                              suffix = (case r4 of [] \<Rightarrow> [] | l # _ \<Rightarrow> if isLetter l then [l] else [])
                          in if h \<noteq> CHR ''-'' \<or> d2 = [] then None
                             else (case titleAfter (drop (length suffix) r4) of
                                     None \<Rightarrow> None
                                   | Some title \<Rightarrow> Some (d1 @ ''-'' @ d2 @ suffix, title))))))"

fun SECTION_HEADER_match :: "string \<Rightarrow> (string \<times> string) option" where
  "SECTION_HEADER_match [] = None"
| "SECTION_HEADER_match (c # cs) =
     (case headerAt (c # cs) of Some g \<Rightarrow> Some g | None \<Rightarrow> SECTION_HEADER_match cs)"

definition sourcePatterns :: patterns where
  "sourcePatterns = \<lparr>sectionHeader = SECTION_HEADER_match, segmentSplit = subHeaderSplit,
                      specValue = SPEC_VALUE_PATTERN_test\<rparr>"

section \<open>Hash embedding (\<^verbatim>\<open>GroqService.getEmbedding\<close>)\<close>

text \<open>
  The vector is a \<^verbatim>\<open>Float32Array\<close> of 1536 counters.  A text of at most 2000 characters adds
  a few thousand to a counter at most, which a 32-bit float holds exactly; the square root
  and the division of the final normalisation are taken over the reals.
\<close>

definition dim :: nat where
  "dim = 1536"

text \<open>
  The bigram loop, \<^verbatim>\<open>for (let i = 0; i < normalized.length - 1; i++)\<close>.  The bucket is a
  remainder of a non-negative number, so \<^verbatim>\<open>Math.abs\<close> leaves it as it is.
\<close>

definition bigramLoop :: "string \<Rightarrow> real list \<Rightarrow> real list" where
  "bigramLoop normalized vector =
     fold (\<lambda>i v.
             (let code = (charCode (normalized ! i) * 31 + charCode (normalized ! (i + 1))) mod dim
              in v[code := v ! code + 1]))
          [0 ..< length normalized - 1] vector"

text \<open>\<^verbatim>\<open>normalized.match(/\b\w+\b/g) || []\<close>: the maximal runs of word characters.\<close>

fun wordRuns :: "string \<Rightarrow> string \<Rightarrow> string list" where
  "wordRuns cur [] = (if cur = [] then [] else [cur])"
| "wordRuns cur (c # cs) =
     (if isWordChar c then wordRuns (cur @ [c]) cs
      else (if cur = [] then [] else [cur]) @ wordRuns [] cs)"

definition autoTerms :: "string list" where
  "autoTerms = [''torque'', ''nm'', ''lb'', ''ft'', ''capacity'', ''pressure'', ''fluid'', ''bolt'',
                ''nut'', ''spec'', ''liter'', ''psi'', ''clearance'']"

text \<open>
  \<^verbatim>\<open>hash = ((hash << 5) - hash + word.charCodeAt(i)) | 0\<close>: arithmetic on 32-bit integers.
\<close>

definition wordHash :: "string \<Rightarrow> 32 word" where
  "wordHash w = fold (\<lambda>c hash. push_bit 5 hash - hash + of_nat (charCode c)) w 0"

definition wordLoop :: "string list \<Rightarrow> real list \<Rightarrow> real list" where
  "wordLoop ws vector =
     fold (\<lambda>w v.
             (let weight = (if w \<in> set autoTerms then 3 else 1);
                  bucket = nat \<bar>sint (wordHash w)\<bar> mod dim
              in v[bucket := v ! bucket + weight]))
          ws vector"

definition getEmbedding :: "string \<Rightarrow> real list" where
  "getEmbedding text =
     (let normalized = take 2000 (toLowerCase text);
          vector = wordLoop (wordRuns [] normalized) (bigramLoop normalized (replicate dim 0));
          norm = sqrt (\<Sum>v \<leftarrow> vector. v * v);
          norm = (if norm = 0 then 1 else norm)
      in map (\<lambda>v. v / norm) vector)"

section \<open>Vector retrieval: cosine similarity\<close>



section \<open>Retriever (\<^verbatim>\<open>retrieveRelevantChunks\<close>)\<close>








definition magnitude :: "real list \<Rightarrow> real" where
  "magnitude a = sqrt (\<Sum>x \<leftarrow> a. x * x)"

section \<open>JSON values and \<^verbatim>\<open>JSON.parse\<close>\<close>

text \<open>
  The values \<^verbatim>\<open>JSON.parse\<close> returns.  Numbers are real numbers; an object lists its members
  in the order of their first occurrence.
\<close>

datatype json = JNull | JBool bool | JNum real | JStr string | JArr "json list"
  | JObj "(string \<times> json) list"

text \<open>
  \<^verbatim>\<open>extractSpecs\<close> is modelled for an arbitrary parser \<open>parse\<close>, where \<open>None\<close> stands for the
  \<^verbatim>\<open>SyntaxError\<close> that \<^verbatim>\<open>JSON.parse\<close> throws, and its properties are proved for every parser.
  The reader below serves to run the methods on concrete responses: a recursive descent
  through the JSON grammar, with twice the length of the text as fuel (of any two calls in a
  row at least one reads a character).  Escapes \<^verbatim>\<open>\u\<close> above \<^verbatim>\<open>00FF\<close> lie outside the 8-bit
  strings of this model and are rejected.
\<close>

definition jsonWs :: "char \<Rightarrow> bool" where
  "jsonWs c = (charCode c \<in> {9, 10, 13, 32})"

datatype scan_state = Plain | Escaped | Unicode nat nat

definition escapeChar :: "char \<Rightarrow> char option" where
  "escapeChar c =
     (if c = CHR 0x22 \<or> c = CHR 0x5C \<or> c = CHR ''/'' then Some c
      else if c = CHR ''b'' then Some (CHR 0x08)
      else if c = CHR ''f'' then Some (CHR 0x0C)
      else if c = CHR ''n'' then Some (CHR 0x0A)
      else if c = CHR ''r'' then Some (CHR 0x0D)
      else if c = CHR ''t'' then Some (CHR 0x09)
      else None)"

definition hexVal :: "char \<Rightarrow> nat option" where
  "hexVal c =
     (let n = charCode c
      in if 48 \<le> n \<and> n \<le> 57 then Some (n - 48)
         else if 65 \<le> n \<and> n \<le> 70 then Some (n - 55)
         else if 97 \<le> n \<and> n \<le> 102 then Some (n - 87)
         else None)"

fun stringScan :: "scan_state \<Rightarrow> string \<Rightarrow> string \<Rightarrow> (string \<times> string) option" where
  "stringScan st acc [] = None"
| "stringScan Plain acc (c # cs) =
     (if c = CHR 0x22 then Some (acc, cs)
      else if c = CHR 0x5C then stringScan Escaped acc cs
      else if charCode c < 32 then None
      else stringScan Plain (acc @ [c]) cs)"
| "stringScan Escaped acc (c # cs) =
     (if c = CHR ''u'' then stringScan (Unicode 0 0) acc cs
      else (case escapeChar c of
              None \<Rightarrow> None
            | Some e \<Rightarrow> stringScan Plain (acc @ [e]) cs))"
| "stringScan (Unicode n v) acc (c # cs) =
     (case hexVal c of
        None \<Rightarrow> None
      | Some h \<Rightarrow>
          (if n < 3 then stringScan (Unicode (n + 1) (16 * v + h)) acc cs
           else if 16 * v + h < 256 then stringScan Plain (acc @ [char_of (16 * v + h)]) cs
           else None))"

definition scaleTen :: "real \<Rightarrow> int \<Rightarrow> real" where
  "scaleTen r e = (if 0 \<le> e then r * 10 ^ nat e else r / 10 ^ nat (- e))"

definition numberToken :: "string \<Rightarrow> (json \<times> string) option" where
  "numberToken s =
     (let neg = (s \<noteq> [] \<and> hd s = CHR ''-'');
          s1 = (if neg then tl s else s);
          ip = (if s1 \<noteq> [] \<and> hd s1 = CHR ''0'' then ''0'' else takeWhile isDigit s1);
          s2 = drop (length ip) s1;
          hasFrac = (s2 \<noteq> [] \<and> hd s2 = CHR ''.'');
          fp = (if hasFrac then takeWhile isDigit (tl s2) else []);
          s3 = (if hasFrac then drop (length fp) (tl s2) else s2);
          hasExp = (s3 \<noteq> [] \<and> (hd s3 = CHR ''e'' \<or> hd s3 = CHR ''E''));
          s4 = (if hasExp then tl s3 else s3);
          expNeg = (hasExp \<and> s4 \<noteq> [] \<and> hd s4 = CHR ''-'');
          s5 = (if hasExp \<and> s4 \<noteq> [] \<and> (hd s4 = CHR ''-'' \<or> hd s4 = CHR ''+'') then tl s4 else s4);
          ep = (if hasExp then takeWhile isDigit s5 else []);
          s6 = drop (length ep) s5;
          mag = real (digitVal ip) + real (digitVal fp) / 10 ^ length fp;
          e = (if expNeg then - int (digitVal ep) else int (digitVal ep))
      in if ip = [] \<or> (hasFrac \<and> fp = []) \<or> (hasExp \<and> ep = []) then None
         else Some (JNum (scaleTen (if neg then - mag else mag) e), s6))"

fun setMember :: "string \<Rightarrow> json \<Rightarrow> (string \<times> json) list \<Rightarrow> (string \<times> json) list" where
  "setMember k v [] = [(k, v)]"
| "setMember k v ((k', v') # ms) = (if k = k' then (k, v) # ms else (k', v') # setMember k v ms)"

fun parseValue :: "nat \<Rightarrow> string \<Rightarrow> (json \<times> string) option"
  and parseElements :: "nat \<Rightarrow> json list \<Rightarrow> string \<Rightarrow> (json \<times> string) option"
  and parseMembers :: "nat \<Rightarrow> (string \<times> json) list \<Rightarrow> string \<Rightarrow> (json \<times> string) option"
where
  "parseValue 0 s = None"
| "parseValue (Suc n) s =
     (case dropWhile jsonWs s of
        [] \<Rightarrow> None
      | c # cs \<Rightarrow>
          if c = CHR ''['' then
            (case dropWhile jsonWs cs of
               [] \<Rightarrow> None
             | d # r \<Rightarrow> if d = CHR '']'' then Some (JArr [], r) else parseElements n [] (d # r))
          else if c = CHR ''{'' then
            (case dropWhile jsonWs cs of
               [] \<Rightarrow> None
             | d # r \<Rightarrow> if d = CHR ''}'' then Some (JObj [], r) else parseMembers n [] (d # r))
          else if c = CHR 0x22 then
            (case stringScan Plain [] cs of None \<Rightarrow> None | Some (t, r) \<Rightarrow> Some (JStr t, r))
          else if prefix ''true'' (c # cs) then Some (JBool True, drop 4 (c # cs))
          else if prefix ''false'' (c # cs) then Some (JBool False, drop 5 (c # cs))
          else if prefix ''null'' (c # cs) then Some (JNull, drop 4 (c # cs))
          else numberToken (c # cs))"
| "parseElements 0 acc s = None"
| "parseElements (Suc n) acc s =
     (case parseValue n s of
        None \<Rightarrow> None
      | Some (v, r) \<Rightarrow>
          (case dropWhile jsonWs r of
             [] \<Rightarrow> None
           | d # r' \<Rightarrow>
               if d = CHR '','' then parseElements n (acc @ [v]) r'
               else if d = CHR '']'' then Some (JArr (acc @ [v]), r')
               else None))"
| "parseMembers 0 acc s = None"
| "parseMembers (Suc n) acc s =
     (case dropWhile jsonWs s of
        [] \<Rightarrow> None
      | q # r \<Rightarrow>
          if q \<noteq> CHR 0x22 then None
          else (case stringScan Plain [] r of
                  None \<Rightarrow> None
                | Some (k, r1) \<Rightarrow>
                    (case dropWhile jsonWs r1 of
                       [] \<Rightarrow> None
                     | colon # r2 \<Rightarrow>
                         if colon \<noteq> CHR '':'' then None
                         else (case parseValue n r2 of
                                 None \<Rightarrow> None
                               | Some (v, r3) \<Rightarrow>
                                   (case dropWhile jsonWs r3 of
                                      [] \<Rightarrow> None
                                    | d # r4 \<Rightarrow>
                                        if d = CHR '','' then parseMembers n (setMember k v acc) r4
                                        else if d = CHR ''}'' then Some (JObj (setMember k v acc), r4)
                                        else None)))))"

definition JSON_parse :: "string \<Rightarrow> json option" where
  "JSON_parse s =
     (case parseValue (2 * length s + 2) s of
        None \<Rightarrow> None
      | Some (v, r) \<Rightarrow> if dropWhile jsonWs r = [] then Some v else None)"

section \<open>Extraction (\<^verbatim>\<open>extractSpecs\<close>)\<close>

text \<open>
  The awaited \<^verbatim>\<open>chat.completions.create\<close> either rejects with an error, whose \<^verbatim>\<open>message\<close> may
  be missing, or resolves with a response, whose \<^verbatim>\<open>choices[0]?.message?.content\<close> may be
  missing.  The response carries its array \<^verbatim>\<open>choices\<close>, as its type says.
\<close>

datatype api_outcome = CallFailed "string option" | CallReturned "string option"

definition isArray :: "json \<Rightarrow> bool" where
  "isArray v = (case v of JArr _ \<Rightarrow> True | _ \<Rightarrow> False)"

text \<open>\<^verbatim>\<open>raw.replace(/^```(?:json)?\s*/i, "")\<close>.\<close>

definition stripFenceOpen :: "string \<Rightarrow> string" where
  "stripFenceOpen s =
     (if prefix ''```'' s
      then (let r = drop 3 s;
                r = (if prefixCI ''json'' r then drop 4 r else r)
            in dropWhile isSpace r)
      else s)"

text \<open>
  \<^verbatim>\<open>.replace(/\s*```$/, "")\<close>: the match is the closing fence at the very end together with
  all the white space before it.
\<close>

definition stripFenceClose :: "string \<Rightarrow> string" where
  "stripFenceClose s = (if suffix ''```'' s then trimEnd (take (length s - 3) s) else s)"

text \<open>\<^verbatim>\<open>s.match(/\[[\s\S]*\]/)\<close>: from the first opening bracket to the last closing one.\<close>

definition bracketMatch :: "string \<Rightarrow> string option" where
  "bracketMatch s =
     (case dropWhile (\<lambda>c. c \<noteq> CHR ''['') s of
        [] \<Rightarrow> None
      | b # t \<Rightarrow>
          (let m = rev (dropWhile (\<lambda>c. c \<noteq> CHR '']'') (rev t))
           in if m = [] then None else Some (b # m)))"

subsection \<open>\<^verbatim>\<open>GroqService.extractSpecs\<close>\<close>

text \<open>\<^verbatim>\<open>response.choices[0]?.message?.content?.trim() || "[]"\<close>.\<close>

definition GroqService_raw :: "string option \<Rightarrow> string" where
  "GroqService_raw reply =
     (case reply of
        None \<Rightarrow> ''[]''
      | Some c \<Rightarrow> if trim c = [] then ''[]'' else trim c)"

definition GroqService_clean :: "string option \<Rightarrow> string" where
  "GroqService_clean reply = trim (stripFenceClose (stripFenceOpen (GroqService_raw reply)))"

definition GroqService_parseResponse :: "(string \<Rightarrow> json option) \<Rightarrow> string option \<Rightarrow> json" where
  "GroqService_parseResponse parse reply =
     (let clean = GroqService_clean reply
      in case parse clean of
           Some parsed \<Rightarrow> if isArray parsed then parsed else JArr []
         | None \<Rightarrow>
             (case bracketMatch clean of
                None \<Rightarrow> JArr []
              | Some m \<Rightarrow> (case parse m of Some parsed \<Rightarrow> parsed | None \<Rightarrow> JArr [])))"

text \<open>
  The whole method: the parse step when the call resolved, the \<^verbatim>\<open>catch\<close> block when it
  rejected (\<^verbatim>\<open>e.message || ""\<close>).
\<close>

definition GroqService_extractSpecs ::
  "(string \<Rightarrow> json option) \<Rightarrow> api_outcome \<Rightarrow> js_error + json" where
  "GroqService_extractSpecs parse outcome =
     (case outcome of
        CallReturned reply \<Rightarrow> Inr (GroqService_parseResponse parse reply)
      | CallFailed m \<Rightarrow>
          (let msg = (case m of None \<Rightarrow> [] | Some s \<Rightarrow> s)
           in if js_includes msg ''401'' \<or> js_includes msg ''invalid_api_key''
              then Inl (Error ''Invalid Groq API key. Check GROQ_API_KEY in your .env.local file.'')
              else if js_includes msg ''429'' \<or> js_includes msg ''rate_limit''
              then Inl (Error ''Groq rate limit hit. Wait 30 seconds and try again.'')
              else Inl (Error (''LLM extraction failed: '' @ msg))))"

subsection \<open>\<^verbatim>\<open>OpenAIService.extractSpecs\<close>\<close>

text \<open>\<^verbatim>\<open>jsonMatch ? jsonMatch[0] : text\<close>, with \<^verbatim>\<open>text = content || \<close> the empty string.\<close>

definition OpenAIService_jsonStr :: "string option \<Rightarrow> string" where
  "OpenAIService_jsonStr reply =
     (let text = (case reply of None \<Rightarrow> [] | Some c \<Rightarrow> c)
      in case bracketMatch text of None \<Rightarrow> text | Some m \<Rightarrow> m)"

definition OpenAIService_parseResponse :: "(string \<Rightarrow> json option) \<Rightarrow> string option \<Rightarrow> json" where
  "OpenAIService_parseResponse parse reply =
     (case parse (OpenAIService_jsonStr reply) of
        Some parsed \<Rightarrow> if isArray parsed then parsed else JArr []
      | None \<Rightarrow> JArr [])"

text \<open>In the \<^verbatim>\<open>catch\<close> block a missing message is printed by the template literal as \<^verbatim>\<open>undefined\<close>.\<close>

definition OpenAIService_extractSpecs ::
  "(string \<Rightarrow> json option) \<Rightarrow> api_outcome \<Rightarrow> js_error + json" where
  "OpenAIService_extractSpecs parse outcome =
     (case outcome of
        CallReturned reply \<Rightarrow> Inr (OpenAIService_parseResponse parse reply)
      | CallFailed m \<Rightarrow>
          Inl (Error (''LLM extraction failed: '' @ (case m of None \<Rightarrow> ''undefined'' | Some s \<Rightarrow> s))))"

text \<open>The \<^verbatim>\<open>confidence\<close> field of a returned record.\<close>

definition confidence :: "json \<Rightarrow> real option" where
  "confidence r =
     (case r of
        JObj ms \<Rightarrow> (case map_of ms ''confidence'' of Some (JNum c) \<Rightarrow> Some c | _ \<Rightarrow> None)
      | _ \<Rightarrow> None)"

section \<open>Sample data\<close>

text \<open>Text items for the layout examples.\<close>

definition textItem :: "string \<Rightarrow> real \<Rightarrow> real \<Rightarrow> text_item" where
  "textItem s x y = \<lparr>str = s, transform4 = x, transform5 = y\<rparr>"

text \<open>The fragments of the specification's row-ordering example.\<close>

definition camBoltItems :: "text_item list" where
  "camBoltItems = [textItem ''Nm'' 50 100, textItem ''350'' 10 100, textItem ''Cam Bolt'' 5 40]"

text \<open>The same page with an empty item inside the first row and a blank item on a row of its own.\<close>

definition blankItems :: "text_item list" where
  "blankItems = [textItem ''Nm'' 50 100, textItem '''' 30 100, textItem ''350'' 10 100,
                 textItem '' '' 5 70, textItem ''Cam Bolt'' 5 40]"

text \<open>Three pages: a section header with a torque value, a page of prose, a capacities table.\<close>

definition samplePages :: "page_entry list" where
  "samplePages =
    [\<lparr>num = 1, content = ''SECTION 204-01A: FRONT SUSPENSION. Cam Bolt Nut 350 Nm''\<rparr>,
     \<lparr>num = 2, content = ''Removal and installation of the lower arm.''\<rparr>,
     \<lparr>num = 3, content = ''FLUID CAPACITIES\<newline>Rear axle lubricant fill 2.6 liters''\<rparr>]"



text \<open>A model response with one record, whose confidence is 0.2, and the record it denotes.\<close>

definition lowConfidenceResponse :: string where
  "lowConfidenceResponse = ''[{\"component\":\"Cam Bolt\",\"unit\":\"Nm\",\"confidence\":0.2}]''"

definition lowConfidenceRecord :: json where
  "lowConfidenceRecord =
     JObj [(''component'', JStr ''Cam Bolt''), (''unit'', JStr ''Nm''), (''confidence'', JNum (1 / 5))]"

text \<open>A record with a high confidence, the text that denotes it, and a reply without JSON.\<close>

definition torqueInner :: string where
  "torqueInner = ''{\"component\":\"Cam Bolt\",\"unit\":\"Nm\",\"confidence\":0.95}''"

definition torqueRecord :: json where
  "torqueRecord =
     JObj [(''component'', JStr ''Cam Bolt''), (''unit'', JStr ''Nm''), (''confidence'', JNum (19 / 20))]"

definition apology :: string where
  "apology = ''I could not find any specification.''"

chapter \<open>Properties\<close>

section \<open>Cosine similarity is guarded\<close>



lemma sum_squares_nonneg: "0 \<le> (\<Sum>x \<leftarrow> a. x * x :: real)"
  by (induction a) simp_all

lemma sum_squares_zero_iff: "(\<Sum>x \<leftarrow> a. x * x :: real) = 0 \<longleftrightarrow> (\<forall>x \<in> set a. x = 0)"
proof (induction a)
  case Nil
  show ?case by simp
next
  case (Cons y ys)
  have "y * y + (\<Sum>x \<leftarrow> ys. x * x) = 0 \<longleftrightarrow> y * y = 0 \<and> (\<Sum>x \<leftarrow> ys. x * x) = 0"
    by (rule add_nonneg_eq_0_iff) (simp_all add: sum_squares_nonneg)
  with Cons.IH show ?case by simp
qed

lemma magnitude_zero_iff: "magnitude a = 0 \<longleftrightarrow> (\<forall>x \<in> set a. x = 0)"
  by (simp add: magnitude_def sum_squares_zero_iff)



section \<open>The hash embedding reads a bounded prefix\<close>

lemma length_bigramLoop: "length (bigramLoop n v) = length v"
proof -
  have "length (fold (\<lambda>i v.
             (let code = (charCode (n ! i) * 31 + charCode (n ! (i + 1))) mod dim
              in v[code := v ! code + 1])) js v) = length v" for js
    by (induction js arbitrary: v) (simp_all add: Let_def)
  then show ?thesis by (simp add: bigramLoop_def)
qed

lemma length_wordLoop: "length (wordLoop ws v) = length v"
  unfolding wordLoop_def by (induction ws arbitrary: v) (simp_all add: Let_def)

text \<open>
  Claim C10.  \<^verbatim>\<open>GroqService.getEmbedding\<close> depends only on the first 2000 characters of
  the lowercased text: two texts whose lowercased forms agree on their first 2000 characters
  get the same vector, the vector has 1536 components, and whatever follows the first 2000
  characters of a text is ignored.
\<close>

theorem getEmbedding_prefix_only:
  "(take 2000 (toLowerCase t1) = take 2000 (toLowerCase t2) \<longrightarrow> getEmbedding t1 = getEmbedding t2)
   \<and> length (getEmbedding t1) = 1536
   \<and> (2000 \<le> length t1 \<longrightarrow> getEmbedding (t1 @ u) = getEmbedding t1)"
  by (simp add: getEmbedding_def Let_def length_wordLoop length_bigramLoop dim_def
        toLowerCase_def)

theorem getEmbedding_prefix_only_witness:
  "take 2000 (toLowerCase ''Torque 350 Nm'') = take 2000 (toLowerCase ''TORQUE 350 NM'')
   \<and> getEmbedding ''Torque 350 Nm'' = getEmbedding ''TORQUE 350 NM''
   \<and> 2000 \<le> length (replicate 2000 (CHR ''a''))
   \<and> getEmbedding (replicate 2000 (CHR ''a'') @ ''tail'') = getEmbedding (replicate 2000 (CHR ''a''))"
proof -
  have h: "take 2000 (toLowerCase ''Torque 350 Nm'') = take 2000 (toLowerCase ''TORQUE 350 NM'')"
    by code_simp
  have l: "2000 \<le> length (replicate 2000 (CHR ''a''))"
    by simp
  show ?thesis
    using h l
      getEmbedding_prefix_only [of "''Torque 350 Nm''" "''TORQUE 350 NM''"]
      getEmbedding_prefix_only [of "replicate 2000 (CHR ''a'')" _ "''tail''"]
    by blast
qed

section \<open>Retrieval returns the best-scoring embedded chunks\<close>

lemma insert_by_desc:
  "insert_by (\<lambda>a b. f b - f a) x ys = insort_key (\<lambda>a. - f a) x ys"
  by (induction ys) simp_all

lemma js_sort_desc: "js_sort (\<lambda>a b. f b - f a) xs = sort_key (\<lambda>a. - f a) xs"
  by (induction xs) (simp_all add: js_sort_def insert_by_desc)











section \<open>Chunk identifiers\<close>

lemma of_char_digitChar: "d < 10 \<Longrightarrow> of_char (digitChar d) = 48 + d"
  by (simp add: digitChar_def)

lemma digitVal_natStr: "digitVal (natStr n) = n"
proof (induction n rule: natStr.induct)
  case (1 n)
  show ?case
  proof (cases "n < 10")
    case True
    then show ?thesis by (simp add: natStr.simps [of n] digitVal_def of_char_digitChar)
  next
    case False
    then have "digitVal (natStr (n div 10)) = n div 10" using 1 by simp
    then show ?thesis using False
      by (simp add: natStr.simps [of n] digitVal_def of_char_digitChar)
  qed
qed

lemma natStr_inj:
  assumes "natStr m = natStr n"
  shows "m = n"
proof -
  have "m = digitVal (natStr m)" by (simp only: digitVal_natStr)
  also have "\<dots> = digitVal (natStr n)" by (simp only: assms)
  also have "\<dots> = n" by (rule digitVal_natStr)
  finally show ?thesis .
qed

lemma natStr_digits: "c \<in> set (natStr n) \<Longrightarrow> 48 \<le> (of_char c :: nat) \<and> (of_char c :: nat) \<le> 57"
proof (induction n rule: natStr.induct)
  case (1 n)
  show ?case
  proof (cases "n < 10")
    case True
    with 1(2) show ?thesis by (auto simp: natStr.simps [of n] of_char_digitChar)
  next
    case False
    have d: "of_char (digitChar (n mod 10)) = 48 + n mod 10"
      by (rule of_char_digitChar) simp
    from 1(2) False have "c \<in> set (natStr (n div 10)) \<or> c = digitChar (n mod 10)"
      by (auto simp: natStr.simps [of n])
    then show ?thesis
    proof
      assume "c \<in> set (natStr (n div 10))"
      with 1(1) False show ?thesis by simp
    next
      assume "c = digitChar (n mod 10)"
      then show ?thesis using d by simp
    qed
  qed
qed

lemma natStr_nonempty: "natStr n \<noteq> []"
  by (subst natStr.simps) simp

lemma natStr_no_s: "CHR ''s'' \<notin> set (natStr n)"
  using natStr_digits [of "CHR ''s''" n] by auto

lemma natStr_no_minus: "CHR ''-'' \<notin> set (natStr n)"
  using natStr_digits [of "CHR ''-''" n] by auto

lemma numStr_no_s: "CHR ''s'' \<notin> set (numStr i)"
  by (simp add: numStr_def natStr_no_s)

lemma numStr_inj: "numStr i = numStr j \<Longrightarrow> i = j"
proof -
  assume e: "numStr i = numStr j"
  have hd_nat: "hd (natStr n) \<noteq> CHR ''-''" for n
    using natStr_no_minus [of n] natStr_nonempty [of n] by (cases "natStr n") auto
  show ?thesis
  proof (cases "i < 0")
    case True
    show ?thesis
    proof (cases "j < 0")
      case True
      with \<open>i < 0\<close> e have "nat (- i) = nat (- j)" by (simp add: numStr_def natStr_inj)
      with True \<open>i < 0\<close> show ?thesis by simp
    next
      case False
      with \<open>i < 0\<close> e have "CHR ''-'' # natStr (nat (- i)) = natStr (nat j)" by (simp add: numStr_def)
      then have "hd (natStr (nat j)) = CHR ''-''" by (cases "natStr (nat j)") simp_all
      with hd_nat show ?thesis by blast
    qed
  next
    case False
    show ?thesis
    proof (cases "j < 0")
      case True
      with False e have "natStr (nat i) = CHR ''-'' # natStr (nat (- j))" by (simp add: numStr_def)
      then have "hd (natStr (nat i)) = CHR ''-''" by simp
      with hd_nat show ?thesis by blast
    next
      case f: False
      with False e have "nat i = nat j" by (simp add: numStr_def natStr_inj)
      with False f show ?thesis by simp
    qed
  qed
qed

lemma chunk_id_inj:
  assumes "''p'' @ numStr i @ ''-s'' @ natStr m = ''p'' @ numStr j @ ''-s'' @ natStr n"
  shows "i = j \<and> m = n"
proof -
  from assms have "(numStr i @ ''-'') @ CHR ''s'' # natStr m = (numStr j @ ''-'') @ CHR ''s'' # natStr n"
    by simp
  moreover have "CHR ''s'' \<notin> set (numStr i @ ''-'')" "CHR ''s'' \<notin> set (natStr m)"
    by (simp_all add: numStr_no_s natStr_no_s)
  ultimately have "numStr i @ ''-'' = numStr j @ ''-'' \<and> natStr m = natStr n"
    using append_Cons_eq_iff [of "CHR ''s''" "numStr i @ ''-''" "natStr m" "numStr j @ ''-''" "natStr n"]
    by blast
  then show ?thesis by (auto dest: numStr_inj natStr_inj)
qed

lemma distinct_map_filter_idx:
  assumes "distinct (map fst xs)"
    and "\<And>p q c d. p \<in> set xs \<Longrightarrow> q \<in> set xs \<Longrightarrow> f p = Some c \<Longrightarrow> f q = Some d
            \<Longrightarrow> g c = g d \<Longrightarrow> fst p = fst q"
  shows "distinct (map g (List.map_filter f xs))"
  using assms
proof (induction xs)
  case Nil
  show ?case by (simp add: map_filter_simps)
next
  case (Cons x xs)
  have IH: "distinct (map g (List.map_filter f xs))"
    using Cons.IH Cons.prems by (simp add: subset_iff) 
  show ?case
  proof (cases "f x")
    case None
    then show ?thesis using IH by (simp add: map_filter_simps)
  next
    case (Some c)
    have "g c \<notin> g ` set (List.map_filter f xs)"
    proof
      assume "g c \<in> g ` set (List.map_filter f xs)"
      then obtain d where d: "d \<in> set (List.map_filter f xs)" "g c = g d" by blast
      then obtain q where q: "q \<in> set xs" "f q = Some d"
        by (auto simp: map_filter_def)
      have "fst x = fst q"
        using Cons.prems(2) [of x q c d] Some q d(2) by simp
      moreover have "fst x \<notin> fst ` set xs" using Cons.prems(1) by simp
      ultimately show False using q(1) by (metis imageI)
    qed
    then show ?thesis using IH Some by (simp add: map_filter_simps)
  qed
qed

lemma segmentChunk_Some:
  assumes "segmentChunk rx a pg (sIdx, seg) = Some c"
  shows "chunk_id c = ''p'' @ numStr (num pg) @ ''-s'' @ natStr sIdx \<and> page c = num pg"
  using assms by (auto simp: segmentChunk_def Let_def split: if_splits)

lemma pageChunks_member:
  assumes "c \<in> set (pageChunks rx a pg)"
  shows "\<exists>sIdx < length (segmentSplit rx (content pg)).
           chunk_id c = ''p'' @ numStr (num pg) @ ''-s'' @ natStr sIdx \<and> page c = num pg"
proof -
  from assms obtain p where p: "p \<in> set (enumerate 0 (segmentSplit rx (content pg)))"
      "segmentChunk rx a pg p = Some c"
    by (auto simp: pageChunks_def map_filter_def)
  obtain sIdx seg where ps: "p = (sIdx, seg)" by (cases p)
  from p(1) ps have "sIdx < length (segmentSplit rx (content pg))"
    by (auto simp: in_set_enumerate_eq)
  with segmentChunk_Some [of rx a pg sIdx seg c] p(2) ps show ?thesis by blast
qed

lemma pageChunks_distinct: "distinct (map chunk_id (pageChunks rx a pg))"
  unfolding pageChunks_def
proof (rule distinct_map_filter_idx)
  show "distinct (map fst (enumerate 0 (segmentSplit rx (content pg))))" by simp
next
  fix p q c d
  assume f: "segmentChunk rx a pg p = Some c" "segmentChunk rx a pg q = Some d"
    and e: "chunk_id c = chunk_id d"
  obtain i s where p: "p = (i, s)" by (cases p)
  obtain j t where q: "q = (j, t)" by (cases q)
  from segmentChunk_Some [of rx a pg i s c] segmentChunk_Some [of rx a pg j t d] f p q e
  have "''p'' @ numStr (num pg) @ ''-s'' @ natStr i = ''p'' @ numStr (num pg) @ ''-s'' @ natStr j"
    by simp
  then have "i = j" using chunk_id_inj by blast
  then show "fst p = fst q" using p q by simp
qed

lemma collectChunks_member:
  "c \<in> set (collectChunks rx a pgs) \<Longrightarrow>
     \<exists>pg \<in> set pgs. \<exists>sIdx < length (segmentSplit rx (content pg)).
        chunk_id c = ''p'' @ numStr (num pg) @ ''-s'' @ natStr sIdx \<and> page c = num pg"
proof (induction pgs arbitrary: a)
  case Nil
  then show ?case by simp
next
  case (Cons pg pgs)
  from Cons.prems have "c \<in> set (pageChunks rx (nextSection rx a pg) pg)
      \<or> c \<in> set (collectChunks rx (nextSection rx a pg) pgs)"
    by (simp add: Let_def)
  then show ?case
  proof
    assume "c \<in> set (pageChunks rx (nextSection rx a pg) pg)"
    from pageChunks_member [OF this] show ?thesis by simp
  next
    assume "c \<in> set (collectChunks rx (nextSection rx a pg) pgs)"
    from Cons.IH [OF this] show ?thesis by auto
  qed
qed

lemma collectChunks_distinct:
  "distinct (map num pgs) \<Longrightarrow> distinct (map chunk_id (collectChunks rx a pgs))"
proof (induction pgs arbitrary: a)
  case Nil
  show ?case by simp
next
  case (Cons pg pgs)
  let ?a = "nextSection rx a pg"
  have rest: "distinct (map chunk_id (collectChunks rx ?a pgs))"
    using Cons.IH Cons.prems by simp
  have disj: "chunk_id c \<noteq> chunk_id d"
    if c: "c \<in> set (pageChunks rx ?a pg)" and d: "d \<in> set (collectChunks rx ?a pgs)" for c d
  proof
    assume e: "chunk_id c = chunk_id d"
    from pageChunks_member [OF c] obtain i where
      i: "chunk_id c = ''p'' @ numStr (num pg) @ ''-s'' @ natStr i" by blast
    from collectChunks_member [OF d] obtain pg' j where
      j: "pg' \<in> set pgs" "chunk_id d = ''p'' @ numStr (num pg') @ ''-s'' @ natStr j" by blast
    from e i j(2) have "num pg = num pg'" using chunk_id_inj by metis
    with j(1) Cons.prems show False by auto
  qed
  show ?case
    using rest pageChunks_distinct [of rx ?a pg] disj
    by (auto simp: Let_def)
qed

lemma js_slice0_take: "\<exists>n. js_slice0 e xs = take n xs"
  by (auto simp: js_slice0_def)

lemma allChunks_distinct: "distinct (map num pages) \<Longrightarrow> distinct (map chunk_id (allChunks rx pages))"
  by (simp add: allChunks_def collectChunks_distinct)

lemma selection_distinct:
  assumes "distinct (map f cs)"
  shows "distinct (map f (js_slice0 m (filter P cs @ js_slice0 e (filter (\<lambda>c. \<not> P c) cs))))"
proof -
  obtain n where n: "js_slice0 e (filter (\<lambda>c. \<not> P c) cs) = take n (filter (\<lambda>c. \<not> P c) cs)"
    using js_slice0_take by blast
  obtain k where k: "js_slice0 m (filter P cs @ take n (filter (\<lambda>c. \<not> P c) cs))
      = take k (filter P cs @ take n (filter (\<lambda>c. \<not> P c) cs))"
    using js_slice0_take by blast
  from assms have dc: "distinct cs" and inj: "inj_on f (set cs)"
    by (simp_all add: distinct_map)
  have d1: "distinct (filter P cs @ take n (filter (\<lambda>c. \<not> P c) cs))"
    using dc by (auto dest: in_set_takeD)
  have sub: "set (filter P cs @ take n (filter (\<lambda>c. \<not> P c) cs)) \<subseteq> set cs"
    by (auto dest: in_set_takeD)
  have "distinct (map f (filter P cs @ take n (filter (\<lambda>c. \<not> P c) cs)))"
    unfolding distinct_map using d1 sub inj by (blast intro: inj_on_subset)
  then have "distinct (take k (map f (filter P cs @ take n (filter (\<lambda>c. \<not> P c) cs))))"
    by (rule distinct_take)
  then show ?thesis unfolding n k by (simp only: take_map)
qed

lemma js_slice0_subset: "set (js_slice0 e xs) \<subseteq> set xs"
  by (auto simp: js_slice0_def dest: in_set_takeD)

lemma generateSemanticChunks_subset:
  "set (generateSemanticChunks rx pages m) \<subseteq> set (allChunks rx pages)"
proof -
  let ?g = "js_slice0 (max 0 (m - int (length (specChunks rx pages)))) (generalChunks rx pages)"
  have "set (generateSemanticChunks rx pages m) \<subseteq> set (specChunks rx pages @ ?g)"
    unfolding generateSemanticChunks_def by (rule js_slice0_subset)
  also have "\<dots> = set (specChunks rx pages) \<union> set ?g" by simp
  also have "\<dots> \<subseteq> set (specChunks rx pages) \<union> set (generalChunks rx pages)"
    using js_slice0_subset [of "max 0 (m - int (length (specChunks rx pages)))" "generalChunks rx pages"]
    by (rule Un_mono [OF subset_refl])
  also have "\<dots> \<subseteq> set (allChunks rx pages)"
    by (auto simp: specChunks_def generalChunks_def)
  finally show ?thesis .
qed

text \<open>The chunks of the sample pages, computed with the patterns of the source.\<close>

lemmas chunker_eval =
  nextSection_def pageChunks_def segmentChunk_def map_filter_simps enumerate_eq_zip
  sourcePatterns_def SPEC_VALUE_PATTERN_test_def subHeaderSplit_def subHeaderAt_def
  headerAt_def titleAfter_def valueAt_def unitAt_def unitMatches_def unitTokens_def
  trim_def trimStart_def trimEnd_def isSpace_def isDigit_def isLetter_def isWordChar_def
  lowerCode_def charCode_def Let_def numStr_def natStr.simps digitChar_def char_of_eq_iff

lemma sample_allChunks:
  "allChunks sourcePatterns samplePages =
    [\<lparr>chunk_id = ''p1-s0'',
      chunk_text = ''SECTION: 204-01A: FRONT SUSPENSION\<newline>PAGE: 1\<newline>CONTENT: SECTION 204-01A: FRONT SUSPENSION. Cam Bolt Nut 350 Nm'',
      chunk_section = Some ''204-01A: FRONT SUSPENSION'', page = 1,
      embedding = None, isSpecPriority = Some True\<rparr>,
     \<lparr>chunk_id = ''p2-s0'',
      chunk_text = ''SECTION: 204-01A: FRONT SUSPENSION\<newline>PAGE: 2\<newline>CONTENT: Removal and installation of the lower arm.'',
      chunk_section = Some ''204-01A: FRONT SUSPENSION'', page = 2,
      embedding = None, isSpecPriority = Some False\<rparr>,
     \<lparr>chunk_id = ''p3-s1'',
      chunk_text = ''SECTION: 204-01A: FRONT SUSPENSION\<newline>PAGE: 3\<newline>CONTENT: CAPACITIES\<newline>Rear axle lubricant fill 2.6 liters'',
      chunk_section = Some ''204-01A: FRONT SUSPENSION'', page = 3,
      embedding = None, isSpecPriority = Some True\<rparr>]"
  by (simp add: allChunks_def samplePages_def chunker_eval)

lemma sample_selection:
  "map chunk_id (specChunks sourcePatterns samplePages) = [''p1-s0'', ''p3-s1'']"
  "map chunk_id (generalChunks sourcePatterns samplePages) = [''p2-s0'']"
  "map chunk_id (generateSemanticChunks sourcePatterns samplePages 300) = [''p1-s0'', ''p3-s1'', ''p2-s0'']"
  "map chunk_id (generateSemanticChunks sourcePatterns samplePages 2) = [''p1-s0'', ''p3-s1'']"
  "int (length (specChunks sourcePatterns samplePages)) \<le> 2"
  by (simp_all add: generateSemanticChunks_def specChunks_def generalChunks_def sample_allChunks
        specPriority_def js_slice0_def)

text \<open>
  Claim C9.  When the page numbers of the input are pairwise distinct, the chunks returned
  by \<^verbatim>\<open>generateSemanticChunks\<close> have pairwise distinct ids, and the id of each is
  \<^verbatim>\<open>p<page>-s<segmentIndex>\<close> for its own page number and the index of one of the segments of
  that page.  This holds for every chunk budget.
\<close>

theorem generateSemanticChunks_ids_distinct:
  assumes "distinct (map num pages)"
  shows "distinct (map chunk_id (generateSemanticChunks rx pages maxChunks))
    \<and> (\<forall>c \<in> set (generateSemanticChunks rx pages maxChunks).
          \<exists>pg \<in> set pages. \<exists>sIdx < length (segmentSplit rx (content pg)).
             page c = num pg \<and> chunk_id c = ''p'' @ numStr (page c) @ ''-s'' @ natStr sIdx)"
proof
  have "distinct (map chunk_id (allChunks rx pages))"
    using assms by (rule allChunks_distinct)
  then show "distinct (map chunk_id (generateSemanticChunks rx pages maxChunks))"
    unfolding generateSemanticChunks_def specChunks_def generalChunks_def
    by (rule selection_distinct)
next
  show "\<forall>c \<in> set (generateSemanticChunks rx pages maxChunks).
          \<exists>pg \<in> set pages. \<exists>sIdx < length (segmentSplit rx (content pg)).
             page c = num pg \<and> chunk_id c = ''p'' @ numStr (page c) @ ''-s'' @ natStr sIdx"
  proof
    fix c
    assume "c \<in> set (generateSemanticChunks rx pages maxChunks)"
    then have "c \<in> set (collectChunks rx ''GENERAL INFORMATION'' pages)"
      using generateSemanticChunks_subset [of rx pages maxChunks] by (auto simp: allChunks_def)
    from collectChunks_member [OF this] obtain pg sIdx where
      m: "pg \<in> set pages" "sIdx < length (segmentSplit rx (content pg))"
         "chunk_id c = ''p'' @ numStr (num pg) @ ''-s'' @ natStr sIdx" "page c = num pg"
      by blast
    from m(3,4) have "page c = num pg \<and> chunk_id c = ''p'' @ numStr (page c) @ ''-s'' @ natStr sIdx"
      by simp
    with m(1,2)
    show "\<exists>pg \<in> set pages. \<exists>sIdx < length (segmentSplit rx (content pg)).
             page c = num pg \<and> chunk_id c = ''p'' @ numStr (page c) @ ''-s'' @ natStr sIdx"
      by blast
  qed
qed

theorem generateSemanticChunks_ids_distinct_witness:
  "distinct (map num samplePages)
   \<and> map chunk_id (generateSemanticChunks sourcePatterns samplePages 300)
       = [''p1-s0'', ''p3-s1'', ''p2-s0'']
   \<and> distinct (map chunk_id (generateSemanticChunks sourcePatterns samplePages 300))"
proof -
  have h: "distinct (map num samplePages)"
    by (simp add: samplePages_def)
  from generateSemanticChunks_ids_distinct [OF h, of sourcePatterns 300]
  have "distinct (map chunk_id (generateSemanticChunks sourcePatterns samplePages 300))"
    by (rule conjunct1)
  with h sample_selection(3) show ?thesis by blast
qed

section \<open>Selection under the chunk budget\<close>

lemma selection_nonneg:
  assumes "0 \<le> m"
  shows "js_slice0 m (sp @ js_slice0 (max 0 (m - int (length sp))) ge)
           = take (nat m) (sp @ take (nat (max 0 (m - int (length sp)))) ge)"
  using assms by (simp add: js_slice0_def)

lemma selection_fits:
  assumes "int (length sp) \<le> m"
  shows "js_slice0 m (sp @ js_slice0 (max 0 (m - int (length sp))) ge)
           = sp @ take (nat m - length sp) ge"
proof -
  have m0: "0 \<le> m" using assms by linarith
  have n: "nat (max 0 (m - int (length sp))) = nat m - length sp"
    using assms by linarith
  have l: "length sp \<le> nat m" using assms by linarith
  show ?thesis
    unfolding selection_nonneg [OF m0] n using l by simp
qed

lemma selection_overflow:
  assumes "0 \<le> m" "m < int (length sp)"
  shows "js_slice0 m (sp @ js_slice0 (max 0 (m - int (length sp))) ge) = take (nat m) sp"
proof -
  have l: "nat m \<le> length sp" using assms by linarith
  show ?thesis
    unfolding selection_nonneg [OF assms(1)] using l by simp
qed

text \<open>
  Claim C1.  For every page sequence and every chunk budget \<open>maxChunks \<ge> 0\<close>,
  \<^verbatim>\<open>generateSemanticChunks\<close> returns the spec-priority chunks followed by the first
  \<open>max 0 (maxChunks - |spec-priority|)\<close> general chunks, the whole cut to \<open>maxChunks\<close> chunks;
  both groups keep the order in which the chunks were generated; at most \<open>maxChunks\<close> chunks
  are returned; and when the spec-priority chunks number at most \<open>maxChunks\<close>, all of them
  are in the result, in front of the general ones.  When they number more, the result is
  their first \<open>maxChunks\<close>.
\<close>

theorem generateSemanticChunks_selection:
  assumes "0 \<le> maxChunks"
  shows "generateSemanticChunks rx pages maxChunks
           = take (nat maxChunks)
               (specChunks rx pages
                  @ take (nat (max 0 (maxChunks - int (length (specChunks rx pages)))))
                      (generalChunks rx pages))
    \<and> subseq (specChunks rx pages) (allChunks rx pages)
    \<and> subseq (generalChunks rx pages) (allChunks rx pages)
    \<and> length (generateSemanticChunks rx pages maxChunks) \<le> nat maxChunks
    \<and> (int (length (specChunks rx pages)) \<le> maxChunks \<longrightarrow>
          generateSemanticChunks rx pages maxChunks
            = specChunks rx pages
                @ take (nat maxChunks - length (specChunks rx pages)) (generalChunks rx pages)
          \<and> set (specChunks rx pages) \<subseteq> set (generateSemanticChunks rx pages maxChunks))
    \<and> (maxChunks < int (length (specChunks rx pages)) \<longrightarrow>
          generateSemanticChunks rx pages maxChunks = take (nat maxChunks) (specChunks rx pages))"
proof -
  let ?sp = "specChunks rx pages" and ?ge = "generalChunks rx pages"
  have eq: "generateSemanticChunks rx pages maxChunks
              = take (nat maxChunks) (?sp @ take (nat (max 0 (maxChunks - int (length ?sp)))) ?ge)"
    unfolding generateSemanticChunks_def using assms by (rule selection_nonneg)
  have len: "length (generateSemanticChunks rx pages maxChunks) \<le> nat maxChunks"
    unfolding eq by simp
  have fits: "generateSemanticChunks rx pages maxChunks = ?sp @ take (nat maxChunks - length ?sp) ?ge"
    if "int (length ?sp) \<le> maxChunks"
    unfolding generateSemanticChunks_def using that by (rule selection_fits)
  have over: "generateSemanticChunks rx pages maxChunks = take (nat maxChunks) ?sp"
    if "maxChunks < int (length ?sp)"
    unfolding generateSemanticChunks_def using assms that by (rule selection_overflow)
  have sub: "subseq ?sp (allChunks rx pages)" "subseq ?ge (allChunks rx pages)"
    by (simp_all add: specChunks_def generalChunks_def)
  from fits have all_in: "set ?sp \<subseteq> set (generateSemanticChunks rx pages maxChunks)"
    if "int (length ?sp) \<le> maxChunks"
    using that by simp
  show ?thesis
    using eq sub len fits all_in over by blast
qed

theorem generateSemanticChunks_selection_witness:
  "(0::int) \<le> 2
   \<and> int (length (specChunks sourcePatterns samplePages)) \<le> 2
   \<and> map chunk_id (specChunks sourcePatterns samplePages) = [''p1-s0'', ''p3-s1'']
   \<and> map chunk_id (generateSemanticChunks sourcePatterns samplePages 2) = [''p1-s0'', ''p3-s1'']
   \<and> set (specChunks sourcePatterns samplePages)
        \<subseteq> set (generateSemanticChunks sourcePatterns samplePages 2)
   \<and> length (generateSemanticChunks sourcePatterns samplePages 2) \<le> nat 2"
proof -
  have h: "(0::int) \<le> 2" by simp
  note t = generateSemanticChunks_selection [OF h, of sourcePatterns samplePages]
  from t have a: "length (generateSemanticChunks sourcePatterns samplePages 2) \<le> nat 2"
    by blast
  from t sample_selection(5)
  have b: "set (specChunks sourcePatterns samplePages)
             \<subseteq> set (generateSemanticChunks sourcePatterns samplePages 2)"
    by blast
  show ?thesis
    using h a b sample_selection(1,4,5) by blast
qed

section \<open>Layout reconstruction\<close>

lemma insert_by_asc:
  "insert_by (\<lambda>a b. f a - f b) x ys = insort_key f x ys"
  by (induction ys) simp_all

lemma js_sort_asc: "js_sort (\<lambda>a b. f a - f b) xs = sort_key f xs"
  by (induction xs) (simp_all add: js_sort_def insert_by_asc)

lemma rowOrder_sort_key: "rowOrder lm = sort_key (\<lambda>k. - real_of_int k) (map fst lm)"
  unfolding rowOrder_def using js_sort_desc [of real_of_int "map fst lm"] by simp

lemma rowOrder_mset: "mset (rowOrder lm) = mset (map fst lm)"
  by (simp add: rowOrder_sort_key)

lemma rowOrder_sorted: "sorted_wrt (\<lambda>a b. b \<le> a) (rowOrder lm)"
proof -
  have "sorted (map (\<lambda>k. - real_of_int k) (rowOrder lm))"
    by (simp add: rowOrder_sort_key)
  then show ?thesis by (simp add: sorted_map sorted_wrt_iff_nth_less)
qed

lemma leftToRight_sort_key: "leftToRight row = sort_key transform4 row"
  by (simp add: leftToRight_def js_sort_asc)

lemma leftToRight_mset: "mset (leftToRight row) = mset row"
  by (simp add: leftToRight_sort_key)

lemma leftToRight_sorted: "sorted_wrt (\<lambda>a b. transform4 a \<le> transform4 b) (leftToRight row)"
proof -
  have "sorted (map transform4 (leftToRight row))"
    by (simp add: leftToRight_sort_key)
  then show ?thesis by (simp add: sorted_map)
qed

lemma leftToRight_stable:
  "filter (\<lambda>i. transform4 i = v) (leftToRight row) = filter (\<lambda>i. transform4 i = v) row"
  by (simp add: leftToRight_sort_key sort_key_stable)

lemma rowText_clean:
  assumes "\<forall>i \<in> set row. str i \<noteq> [] \<and> trim (str i) = str i"
  shows "rowText row = join ''  '' (map str (leftToRight row))"
proof -
  have s: "set (leftToRight row) = set row"
    using leftToRight_mset [of row] by (metis set_mset_mset)
  have m: "map (\<lambda>item. trim (str item)) (leftToRight row) = map str (leftToRight row)"
    using assms s by simp
  have f: "filter (\<lambda>s. s \<noteq> []) (map str (leftToRight row)) = map str (leftToRight row)"
    using assms s by (simp add: filter_id_conv)
  show ?thesis by (simp add: rowText_def m f)
qed

lemma update_row_by_key:
  assumes "distinct (map fst lm)" "i < length lm"
  shows "map (\<lambda>(k, row). if k = fst (lm ! i) then (k, row @ [item]) else (k, row)) lm
           = lm[i := (fst (lm ! i), snd (lm ! i) @ [item])]"
proof (rule nth_equalityI)
  show "length (map (\<lambda>(k, row). if k = fst (lm ! i) then (k, row @ [item]) else (k, row)) lm)
          = length (lm[i := (fst (lm ! i), snd (lm ! i) @ [item])])" by simp
next
  fix j
  assume "j < length (map (\<lambda>(k, row). if k = fst (lm ! i) then (k, row @ [item]) else (k, row)) lm)"
  then have j: "j < length lm" by simp
  show "map (\<lambda>(k, row). if k = fst (lm ! i) then (k, row @ [item]) else (k, row)) lm ! j
          = lm[i := (fst (lm ! i), snd (lm ! i) @ [item])] ! j"
  proof (cases "j = i")
    case True
    then show ?thesis using j by (simp add: case_prod_beta)
  next
    case False
    have "map fst lm ! j \<noteq> map fst lm ! i"
      using assms j False by (simp add: nth_eq_iff_index_eq del: nth_map)
    then have "fst (lm ! j) \<noteq> fst (lm ! i)" using j assms(2) by simp
    then show ?thesis using j False by (simp add: case_prod_beta)
  qed
qed

lemma addItem_first_match:
  assumes "distinct (map fst lm)" "i < length lm"
    and "\<bar>fst (lm ! i) - round (transform5 item)\<bar> < 3"
    and "\<forall>j < i. \<not> \<bar>fst (lm ! j) - round (transform5 item)\<bar> < 3"
  shows "addItem lm item = lm[i := (fst (lm ! i), snd (lm ! i) @ [item])]"
proof -
  have "find (\<lambda>k. \<bar>k - round (transform5 item)\<bar> < ROW_DELTA) (map fst lm) = Some (fst (lm ! i))"
    unfolding find_Some_iff using assms(2,3,4) by (auto simp: ROW_DELTA_def intro!: exI [of _ i])
  then show ?thesis
    using update_row_by_key [OF assms(1,2)] by (simp add: addItem_def Let_def)
qed

lemma addItem_no_match:
  assumes "\<forall>j < length lm. \<not> \<bar>fst (lm ! j) - round (transform5 item)\<bar> < 3"
  shows "addItem lm item = lm @ [(round (transform5 item), [item])]"
proof -
  have "find (\<lambda>k. \<bar>k - round (transform5 item)\<bar> < ROW_DELTA) (map fst lm) = None"
    unfolding find_None_iff
  proof
    assume "\<exists>k. k \<in> set (map fst lm) \<and> \<bar>k - round (transform5 item)\<bar> < ROW_DELTA"
    then obtain k where k: "k \<in> set (map fst lm)" "\<bar>k - round (transform5 item)\<bar> < 3"
      by (auto simp: ROW_DELTA_def)
    from k(1) obtain j where "j < length lm" "k = fst (lm ! j)"
      by (auto simp: in_set_conv_nth)
    with k(2) assms show False by blast
  qed
  then show ?thesis by (simp add: addItem_def Let_def)
qed

lemma addItem_keys:
  "map fst (addItem lm item) = map fst lm \<or>
   (map fst (addItem lm item) = map fst lm @ [round (transform5 item)]
      \<and> round (transform5 item) \<notin> set (map fst lm))"
proof (cases "find (\<lambda>k. \<bar>k - round (transform5 item)\<bar> < ROW_DELTA) (map fst lm)")
  case None
  then have "\<not> \<bar>round (transform5 item) - round (transform5 item)\<bar> < ROW_DELTA
              \<or> round (transform5 item) \<notin> set (map fst lm)"
    unfolding find_None_iff by blast
  then have "round (transform5 item) \<notin> set (map fst lm)" by (simp add: ROW_DELTA_def)
  then show ?thesis using None by (simp add: addItem_def Let_def)
next
  case (Some k)
  have "map fst (map (\<lambda>(k', row). if k' = k then (k', row @ [item]) else (k', row)) lm) = map fst lm"
    by (induction lm) auto
  then show ?thesis using Some by (simp add: addItem_def Let_def)
qed

lemma addItem_distinct: "distinct (map fst lm) \<Longrightarrow> distinct (map fst (addItem lm item))"
  using addItem_keys [of lm item] by auto

lemma foldl_addItem_distinct:
  "distinct (map fst lm) \<Longrightarrow> distinct (map fst (foldl addItem lm items))"
  by (induction items arbitrary: lm) (simp_all add: addItem_distinct)

lemma groupItems_distinct: "distinct (map fst (groupItems items))"
  by (simp add: groupItems_def foldl_addItem_distinct)


lemma round_sample: "round (513 / 5 :: real) = 103"
  by (simp add: round_def)

lemma sample_rows:
  "groupItems [textItem ''a'' 0 100, textItem ''b'' 0 103, textItem ''c'' 0 102]
     = [(100, [textItem ''a'' 0 100, textItem ''c'' 0 102]), (103, [textItem ''b'' 0 103])]"
  "addItem [(100, [textItem ''a'' 0 100]), (103, [textItem ''b'' 0 103])] (textItem ''d'' 0 50)
     = [(100, [textItem ''a'' 0 100]), (103, [textItem ''b'' 0 103]), (50, [textItem ''d'' 0 50])]"
  by (simp_all add: groupItems_def addItem_def textItem_def ROW_DELTA_def Let_def)

text \<open>
  Claim C5, as the code has it.  While the rows are built, each arriving fragment is
  appended to the first existing row, in row-creation order, whose key differs from the
  fragment's vertical coordinate rounded to the nearest integer by strictly less than 3;
  the other rows stay as they are and no row is added.  The first match wins, not the
  nearest.  If no row is within tolerance, a new row keyed by the fragment's rounded
  coordinate is added at the end.  The keys of the rows stay pairwise distinct.
\<close>

theorem addItem_first_match_rounded:
  assumes "distinct (map fst lineMap)"
  shows "(\<forall>i < length lineMap.
            \<bar>fst (lineMap ! i) - round (transform5 item)\<bar> < 3
            \<and> (\<forall>j < i. \<not> \<bar>fst (lineMap ! j) - round (transform5 item)\<bar> < 3)
            \<longrightarrow> addItem lineMap item
                  = lineMap[i := (fst (lineMap ! i), snd (lineMap ! i) @ [item])])
    \<and> ((\<forall>j < length lineMap. \<not> \<bar>fst (lineMap ! j) - round (transform5 item)\<bar> < 3)
          \<longrightarrow> addItem lineMap item = lineMap @ [(round (transform5 item), [item])])
    \<and> distinct (map fst (addItem lineMap item))
    \<and> distinct (map fst (groupItems items))"
  using addItem_first_match [OF assms] addItem_no_match addItem_distinct [OF assms]
    groupItems_distinct
  by blast

theorem addItem_first_match_rounded_witness:
  "distinct (map fst [(100::int, [textItem ''a'' 0 100]), (103, [textItem ''b'' 0 103])])
   \<and> \<bar>100 - round (transform5 (textItem ''c'' 0 102))\<bar> < 3
   \<and> \<bar>103 - round (transform5 (textItem ''c'' 0 102))\<bar> < \<bar>100 - round (transform5 (textItem ''c'' 0 102))\<bar>
   \<and> addItem [(100, [textItem ''a'' 0 100]), (103, [textItem ''b'' 0 103])] (textItem ''c'' 0 102)
       = [(100, [textItem ''a'' 0 100, textItem ''c'' 0 102]), (103, [textItem ''b'' 0 103])]
   \<and> addItem [(100, [textItem ''a'' 0 100]), (103, [textItem ''b'' 0 103])] (textItem ''d'' 0 50)
       = [(100, [textItem ''a'' 0 100]), (103, [textItem ''b'' 0 103]), (50, [textItem ''d'' 0 50])]"
proof -
  let ?lm = "[(100, [textItem ''a'' 0 100]), (103, [textItem ''b'' 0 103])] :: lineMap"
  have d: "distinct (map fst ?lm)" by simp
  have r: "round (transform5 (textItem ''c'' 0 102)) = 102" "round (transform5 (textItem ''d'' 0 50)) = 50"
    by (simp_all add: textItem_def)
  note t = addItem_first_match_rounded [OF d]
  from t [of "textItem ''c'' 0 102"]
  have "\<forall>i < length ?lm.
            \<bar>fst (?lm ! i) - round (transform5 (textItem ''c'' 0 102))\<bar> < 3
            \<and> (\<forall>j < i. \<not> \<bar>fst (?lm ! j) - round (transform5 (textItem ''c'' 0 102))\<bar> < 3)
            \<longrightarrow> addItem ?lm (textItem ''c'' 0 102)
                  = ?lm[i := (fst (?lm ! i), snd (?lm ! i) @ [textItem ''c'' 0 102])]"
    by blast
  then have "0 < length ?lm \<and> \<bar>fst (?lm ! 0) - round (transform5 (textItem ''c'' 0 102))\<bar> < 3
            \<and> (\<forall>j < 0. \<not> \<bar>fst (?lm ! j) - round (transform5 (textItem ''c'' 0 102))\<bar> < 3)
            \<longrightarrow> addItem ?lm (textItem ''c'' 0 102)
                  = ?lm[0 := (fst (?lm ! 0), snd (?lm ! 0) @ [textItem ''c'' 0 102])]"
    by blast
  then have a: "addItem ?lm (textItem ''c'' 0 102)
      = [(100, [textItem ''a'' 0 100, textItem ''c'' 0 102]), (103, [textItem ''b'' 0 103])]"
    by (simp add: r)
  from t [of "textItem ''d'' 0 50"]
  have "(\<forall>j < length ?lm. \<not> \<bar>fst (?lm ! j) - round (transform5 (textItem ''d'' 0 50))\<bar> < 3)
          \<longrightarrow> addItem ?lm (textItem ''d'' 0 50) = ?lm @ [(round (transform5 (textItem ''d'' 0 50)), [textItem ''d'' 0 50])]"
    by blast
  then have b: "addItem ?lm (textItem ''d'' 0 50)
      = [(100, [textItem ''a'' 0 100]), (103, [textItem ''b'' 0 103]), (50, [textItem ''d'' 0 50])]"
    by (simp add: r less_Suc_eq numeral_2_eq_2)
  show ?thesis using d a b by (simp add: r)
qed

text \<open>
  The claim as worded compares the row's coordinate with the fragment's own coordinate.  A
  fragment at 102.6 lies within 3 units of the row at 100, yet it starts a row of its own,
  keyed 103 rather than 102.6, because the code rounds the coordinate first.
\<close>

theorem addItem_unrounded_counterexample:
  "\<bar>real_of_int 100 - transform5 (textItem ''b'' 0 102.6)\<bar> < 3
   \<and> addItem [(100, [textItem ''a'' 0 100])] (textItem ''b'' 0 102.6)
       = [(100, [textItem ''a'' 0 100]), (103, [textItem ''b'' 0 102.6])]
   \<and> real_of_int 103 \<noteq> transform5 (textItem ''b'' 0 102.6)"
  by (simp add: addItem_def textItem_def ROW_DELTA_def Let_def round_sample)

lemma sample_layout:
  "groupItems camBoltItems
     = [(100, [textItem ''Nm'' 50 100, textItem ''350'' 10 100]), (40, [textItem ''Cam Bolt'' 5 40])]"
  "pageText (groupItems camBoltItems) = ''350  Nm\<newline>Cam Bolt''"
  "pageText (groupItems blankItems) = ''350  Nm\<newline>Cam Bolt''"
  "spec_pageText (groupItems blankItems) = ''350    Nm\<newline> \<newline>Cam Bolt''"
  "rowText [textItem ''Nm'' 50 100, textItem ''350'' 10 100] = ''350  Nm''"
  by code_simp+

text \<open>
  Claim C4, as the code has it.  For every grouping of a page's fragments into rows, the
  rows are taken in descending order of their keys and the fragments of a row in ascending
  order of their horizontal coordinate (fragments at the same coordinate keep their order);
  each fragment text is trimmed and the empty ones are dropped; the remaining texts of a row
  are joined with a double space; rows whose line is blank are dropped and the remaining
  lines are joined with newlines.  For a row whose texts are non-empty and carry no outer
  white space the line is the plain join of the texts.  The fragments
  \<^verbatim>\<open>[("Nm",50,100),("350",10,100),("Cam Bolt",5,40)]\<close> give \<^verbatim>\<open>"350  Nm\nCam Bolt"\<close>.
\<close>

theorem pageText_layout:
  "pageText lineMap
     = join ''\<newline>''
         (filter (\<lambda>line. trim line \<noteq> [])
            (map (\<lambda>y. rowText (the (map_of lineMap y))) (rowOrder lineMap)))
   \<and> mset (rowOrder lineMap) = mset (map fst lineMap)
   \<and> sorted_wrt (\<lambda>a b. b \<le> a) (rowOrder lineMap)
   \<and> rowText row
       = join ''  '' (filter (\<lambda>s. s \<noteq> []) (map (\<lambda>i. trim (str i)) (leftToRight row)))
   \<and> mset (leftToRight row) = mset row
   \<and> sorted_wrt (\<lambda>a b. transform4 a \<le> transform4 b) (leftToRight row)
   \<and> (\<forall>v. filter (\<lambda>i. transform4 i = v) (leftToRight row) = filter (\<lambda>i. transform4 i = v) row)
   \<and> ((\<forall>i \<in> set row. str i \<noteq> [] \<and> trim (str i) = str i)
        \<longrightarrow> rowText row = join ''  '' (map str (leftToRight row)))
   \<and> pageText (groupItems camBoltItems) = ''350  Nm\<newline>Cam Bolt''"
  using rowOrder_mset [of lineMap] rowOrder_sorted [of lineMap] leftToRight_mset [of row]
    leftToRight_sorted [of row] leftToRight_stable [of _ row] rowText_clean [of row]
    sample_layout(2)
  by (simp add: pageText_def rowText_def)

theorem pageText_layout_witness:
  "str (textItem ''Nm'' 50 100) \<noteq> [] \<and> trim (str (textItem ''Nm'' 50 100)) = str (textItem ''Nm'' 50 100)
   \<and> str (textItem ''350'' 10 100) \<noteq> [] \<and> trim (str (textItem ''350'' 10 100)) = str (textItem ''350'' 10 100)
   \<and> rowText [textItem ''Nm'' 50 100, textItem ''350'' 10 100]
       = join ''  '' (map str (leftToRight [textItem ''Nm'' 50 100, textItem ''350'' 10 100]))
   \<and> rowText [textItem ''Nm'' 50 100, textItem ''350'' 10 100] = ''350  Nm''
   \<and> pageText (groupItems camBoltItems) = ''350  Nm\<newline>Cam Bolt''"
proof -
  have h: "str (textItem ''Nm'' 50 100) \<noteq> [] \<and> trim (str (textItem ''Nm'' 50 100)) = str (textItem ''Nm'' 50 100)
     \<and> str (textItem ''350'' 10 100) \<noteq> [] \<and> trim (str (textItem ''350'' 10 100)) = str (textItem ''350'' 10 100)"
    by code_simp
  then have "\<forall>i \<in> set [textItem ''Nm'' 50 100, textItem ''350'' 10 100]. str i \<noteq> [] \<and> trim (str i) = str i"
    by simp
  with pageText_layout [of _ "[textItem ''Nm'' 50 100, textItem ''350'' 10 100]"]
  have "rowText [textItem ''Nm'' 50 100, textItem ''350'' 10 100]
       = join ''  '' (map str (leftToRight [textItem ''Nm'' 50 100, textItem ''350'' 10 100]))"
    by blast
  then show ?thesis using h sample_layout(2,5) by blast
qed

text \<open>
  The claim as worded joins the fragment texts as they are and emits every row.  With an
  empty fragment inside a row and a blank fragment on a row of its own the code gives the
  same two lines as before, where the wording gives four spaces and a third line.
\<close>

theorem pageText_literal_counterexample:
  "pageText (groupItems blankItems) = ''350  Nm\<newline>Cam Bolt''
   \<and> spec_pageText (groupItems blankItems) = ''350    Nm\<newline> \<newline>Cam Bolt''
   \<and> pageText (groupItems blankItems) \<noteq> spec_pageText (groupItems blankItems)"
  using sample_layout(3,4) by simp

section \<open>Parsing the model response\<close>

lemma not_isSpace_brackets: "\<not> isSpace (CHR ''['')" "\<not> isSpace (CHR '']'')" "\<not> isSpace (CHR ''`'')"
  by (simp_all add: isSpace_def charCode_def)

lemma dropWhile_keep: "\<not> P b \<Longrightarrow> dropWhile P (p @ b # rest) = dropWhile P p @ b # rest"
  by (induction p) simp_all

lemma trim_keep:
  "trim (p @ CHR ''['' # mid @ [CHR '']'']) = dropWhile isSpace p @ CHR ''['' # mid @ [CHR '']'']"
proof -
  have "trimEnd ((dropWhile isSpace p @ CHR ''['' # mid) @ [CHR '']''])
          = (dropWhile isSpace p @ CHR ''['' # mid) @ [CHR '']'']"
    by (simp add: trimEnd_def not_isSpace_brackets)
  then show ?thesis
    by (simp add: trim_def trimStart_def dropWhile_keep not_isSpace_brackets)
qed

lemma prefix3_keep:
  assumes "prefix [a, a, a] (p @ x # ys)" "x \<noteq> a"
  shows "\<exists>r. p = a # a # a # r"
proof (cases p)
  case Nil
  with assms show ?thesis by simp
next
  case (Cons p1 q1)
  show ?thesis
  proof (cases q1)
    case Nil
    with Cons assms show ?thesis by simp
  next
    case (Cons p2 q2)
    show ?thesis
    proof (cases q2)
      case Nil
      with Cons \<open>p = p1 # q1\<close> assms show ?thesis by simp
    next
      case (Cons p3 q3)
      with \<open>q1 = p2 # q2\<close> \<open>p = p1 # q1\<close> assms show ?thesis by auto
    qed
  qed
qed

lemma prefixCI_keep:
  assumes "prefixCI pat (p @ x # ys)"
    and "\<forall>c \<in> set pat. lowerCode (charCode c) \<noteq> lowerCode (charCode x)"
  shows "length pat \<le> length p"
  using assms
proof (induction pat arbitrary: p)
  case Nil
  show ?case by simp
next
  case (Cons a ps)
  show ?case
  proof (cases p)
    case Nil
    with Cons.prems show ?thesis by (simp split: if_splits)
  next
    case (Cons b p')
    with Cons.prems have "prefixCI ps (p' @ x # ys)" by (simp split: if_splits)
    with Cons.IH Cons.prems(2) have "length ps \<le> length p'" by simp
    with Cons show ?thesis by simp
  qed
qed

lemma prefixCI_json_keep:
  assumes "prefixCI ''json'' (p @ CHR ''['' # ys)"
  shows "4 \<le> length p"
  using prefixCI_keep [OF assms] by (simp add: lowerCode_def charCode_def)

lemma dropWhile_isSpace_keep:
  "dropWhile isSpace (xs @ CHR ''['' # ys) = dropWhile isSpace xs @ CHR ''['' # ys"
  by (rule dropWhile_keep) (rule not_isSpace_brackets)

lemma stripFenceOpen_keep:
  "\<exists>p'. stripFenceOpen (p @ CHR ''['' # ys) = p' @ CHR ''['' # ys \<and> set p' \<subseteq> set p"
proof (cases "prefix ''```'' (p @ CHR ''['' # ys)")
  case False
  then show ?thesis by (auto simp: stripFenceOpen_def)
next
  case True
  then obtain r where r: "p = CHR ''`'' # CHR ''`'' # CHR ''`'' # r"
    using prefix3_keep [of "CHR ''`''" p "CHR ''[''" ys] by auto
  let ?r2 = "if prefixCI ''json'' (r @ CHR ''['' # ys) then drop 4 r else r"
  have d3: "drop 3 (p @ CHR ''['' # ys) = r @ CHR ''['' # ys"
    by (simp add: r)
  have d: "(if prefixCI ''json'' (r @ CHR ''['' # ys) then drop 4 (r @ CHR ''['' # ys) else r @ CHR ''['' # ys)
             = ?r2 @ CHR ''['' # ys"
    using prefixCI_json_keep [of r ys] by auto
  have "stripFenceOpen (p @ CHR ''['' # ys) = dropWhile isSpace ?r2 @ CHR ''['' # ys"
    unfolding stripFenceOpen_def Let_def d3 d dropWhile_isSpace_keep using True by simp
  moreover have "set (dropWhile isSpace ?r2) \<subseteq> set p"
    using r by (auto dest: set_dropWhileD in_set_dropD)
  ultimately show ?thesis by blast
qed

lemma stripFenceClose_keep: "stripFenceClose (xs @ [CHR '']'']) = xs @ [CHR '']'']"
  by (simp add: stripFenceClose_def suffix_def)

lemma bracketMatch_between:
  assumes "CHR ''['' \<notin> set pre" "CHR '']'' \<notin> set post"
  shows "bracketMatch (pre @ (CHR ''['' # mid @ [CHR '']'']) @ post) = Some (CHR ''['' # mid @ [CHR '']''])"
proof -
  have a: "dropWhile (\<lambda>c. c \<noteq> CHR ''['') (pre @ CHR ''['' # mid @ CHR '']'' # post)
             = CHR ''['' # mid @ CHR '']'' # post"
    using assms(1) by (induction pre) auto
  have b: "dropWhile (\<lambda>c. c \<noteq> CHR '']'') (rev post @ CHR '']'' # rev mid) = CHR '']'' # rev mid"
    using assms(2) by (induction post rule: rev_induct) auto
  show ?thesis
    by (simp add: bracketMatch_def a b)
qed

lemma GroqService_clean_keep:
  "\<exists>p'. GroqService_clean (Some (p @ CHR ''['' # mid @ [CHR '']''])) = p' @ CHR ''['' # mid @ [CHR '']'']
        \<and> set p' \<subseteq> set p"
proof -
  let ?B = "CHR ''['' # mid @ [CHR '']'']"
  have raw: "GroqService_raw (Some (p @ ?B)) = dropWhile isSpace p @ ?B"
    by (simp add: GroqService_raw_def trim_keep)
  obtain p2 where p2: "stripFenceOpen (dropWhile isSpace p @ ?B) = p2 @ ?B"
      "set p2 \<subseteq> set (dropWhile isSpace p)"
    using stripFenceOpen_keep [of "dropWhile isSpace p" "mid @ [CHR '']'']"] by auto
  have cl: "stripFenceClose (p2 @ ?B) = p2 @ ?B"
    using stripFenceClose_keep [of "p2 @ CHR ''['' # mid"] by simp
  have "GroqService_clean (Some (p @ ?B)) = dropWhile isSpace p2 @ ?B"
    by (simp add: GroqService_clean_def raw p2(1) cl trim_keep)
  moreover have "set (dropWhile isSpace p2) \<subseteq> set p"
    using p2(2) by (auto dest: set_dropWhileD)
  ultimately show ?thesis by blast
qed

lemma GroqService_clean_fenced_generic:
  assumes "trim X = X" "X \<noteq> []"
    and "stripFenceOpen X = (CHR ''['' # mid @ [CHR '']'']) @ ''\<newline>```''"
  shows "GroqService_clean (Some X) = CHR ''['' # mid @ [CHR '']'']"
proof -
  let ?B = "CHR ''['' # mid @ [CHR '']'']"
  have nl: "isSpace (CHR ''\<newline>'')" by (simp add: isSpace_def charCode_def)
  have raw: "GroqService_raw (Some X) = X"
    using assms(1,2) by (simp add: GroqService_raw_def)
  have c: "stripFenceClose (?B @ ''\<newline>```'') = ?B"
  proof -
    have "suffix ''```'' (?B @ ''\<newline>```'')" by (simp add: suffix_def)
    moreover have "take (length (?B @ ''\<newline>```'') - 3) (?B @ ''\<newline>```'') = ?B @ ''\<newline>''" by simp
    moreover have "trimEnd (?B @ ''\<newline>'') = ?B"
      by (simp add: trimEnd_def nl not_isSpace_brackets)
    ultimately show ?thesis by (simp only: stripFenceClose_def if_True)
  qed
  have tb: "trim ?B = ?B" using trim_keep [of "[]" mid] by simp
  show ?thesis
    unfolding GroqService_clean_def raw assms(3) c tb ..
qed

lemma GroqService_clean_fenced:
  "GroqService_clean (Some (''```json\<newline>'' @ (CHR ''['' # mid @ [CHR '']'']) @ ''\<newline>```''))
     = CHR ''['' # mid @ [CHR '']'']"
  "GroqService_clean (Some (''```\<newline>'' @ (CHR ''['' # mid @ [CHR '']'']) @ ''\<newline>```''))
     = CHR ''['' # mid @ [CHR '']'']"
proof -
  let ?B = "CHR ''['' # mid @ [CHR '']'']"
  have nl: "isSpace (CHR ''\<newline>'')" by (simp add: isSpace_def charCode_def)
  have te: "trimEnd (xs @ ''`'') = xs @ ''`''" for xs
    by (simp add: trimEnd_def not_isSpace_brackets)
  have t1: "trim (''```json\<newline>'' @ ?B @ ''\<newline>```'') = ''```json\<newline>'' @ ?B @ ''\<newline>```''"
    using te [of "''```json\<newline>'' @ ?B @ ''\<newline>``''"]
    by (simp add: trim_def trimStart_def not_isSpace_brackets)
  have t2: "trim (''```\<newline>'' @ ?B @ ''\<newline>```'') = ''```\<newline>'' @ ?B @ ''\<newline>```''"
    using te [of "''```\<newline>'' @ ?B @ ''\<newline>``''"]
    by (simp add: trim_def trimStart_def not_isSpace_brackets)
  have o1: "stripFenceOpen (''```json\<newline>'' @ ?B @ ''\<newline>```'') = ?B @ ''\<newline>```''"
    by (simp add: stripFenceOpen_def lowerCode_def charCode_def nl not_isSpace_brackets)
  have o2: "stripFenceOpen (''```\<newline>'' @ ?B @ ''\<newline>```'') = ?B @ ''\<newline>```''"
    by (simp add: stripFenceOpen_def lowerCode_def charCode_def nl not_isSpace_brackets)
  show "GroqService_clean (Some (''```json\<newline>'' @ ?B @ ''\<newline>```'')) = ?B"
    by (rule GroqService_clean_fenced_generic [OF t1 _ o1]) simp
  show "GroqService_clean (Some (''```\<newline>'' @ ?B @ ''\<newline>```'')) = ?B"
    by (rule GroqService_clean_fenced_generic [OF t2 _ o2]) simp
qed

lemma sample_parse:
  "JSON_parse (CHR ''['' # torqueInner @ [CHR '']'']) = Some (JArr [torqueRecord])"
  "JSON_parse (GroqService_clean (Some (''Here are the specs: '' @ CHR ''['' # torqueInner @ [CHR '']'']))) = None"
  "JSON_parse (GroqService_clean (Some apology)) = None"
  "bracketMatch (GroqService_clean (Some apology)) = None"
  "JSON_parse (OpenAIService_jsonStr (Some apology)) = None"
  "JSON_parse (GroqService_clean (Some lowConfidenceResponse)) = Some (JArr [lowConfidenceRecord])"
  "JSON_parse (OpenAIService_jsonStr (Some lowConfidenceResponse)) = Some (JArr [lowConfidenceRecord])"
  by code_simp+

lemma sample_extraction:
  "GroqService_extractSpecs JSON_parse (CallReturned (Some lowConfidenceResponse))
     = Inr (JArr [lowConfidenceRecord])"
  "OpenAIService_extractSpecs JSON_parse (CallReturned (Some lowConfidenceResponse))
     = Inr (JArr [lowConfidenceRecord])"
  "confidence lowConfidenceRecord = Some (1 / 5)"
  "GroqService_extractSpecs JSON_parse
     (CallReturned (Some (''Specs [page 14]: '' @ CHR ''['' # torqueInner @ [CHR '']''])))
     = Inr (JArr [])"
  "OpenAIService_extractSpecs JSON_parse
     (CallReturned (Some (''Specs [page 14]: '' @ CHR ''['' # torqueInner @ [CHR '']''])))
     = Inr (JArr [])"
  by code_simp+

lemma extractSpecs_returns:
  "\<exists>v. GroqService_extractSpecs parse (CallReturned reply) = Inr v"
  "\<exists>v. OpenAIService_extractSpecs parse (CallReturned reply) = Inr v"
  by (simp_all add: GroqService_extractSpecs_def OpenAIService_extractSpecs_def)

lemma GroqService_parsed_array:
  "parse (GroqService_clean reply) = Some (JArr rs) \<Longrightarrow>
     GroqService_extractSpecs parse (CallReturned reply) = Inr (JArr rs)"
  by (simp add: GroqService_extractSpecs_def GroqService_parseResponse_def isArray_def)

lemma OpenAIService_parsed_array:
  "parse (OpenAIService_jsonStr reply) = Some (JArr rs) \<Longrightarrow>
     OpenAIService_extractSpecs parse (CallReturned reply) = Inr (JArr rs)"
  by (simp add: OpenAIService_extractSpecs_def OpenAIService_parseResponse_def isArray_def)

lemma GroqService_fallback_array:
  assumes "parse (GroqService_clean reply) = None"
    and "bracketMatch (GroqService_clean reply) = Some m" and "parse m = Some (JArr rs)"
  shows "GroqService_extractSpecs parse (CallReturned reply) = Inr (JArr rs)"
  using assms by (simp add: GroqService_extractSpecs_def GroqService_parseResponse_def)

lemma OpenAIService_jsonStr_between:
  assumes "CHR ''['' \<notin> set pre" "CHR '']'' \<notin> set post"
  shows "OpenAIService_jsonStr (Some (pre @ (CHR ''['' # mid @ [CHR '']'']) @ post))
           = CHR ''['' # mid @ [CHR '']'']"
  using bracketMatch_between [OF assms, of mid] by (simp add: OpenAIService_jsonStr_def)

lemma GroqService_prose:
  assumes "CHR ''['' \<notin> set prose"
    and "parse (CHR ''['' # mid @ [CHR '']'']) = Some (JArr rs)"
    and "parse (GroqService_clean (Some (prose @ CHR ''['' # mid @ [CHR '']'']))) = None
         \<or> parse (GroqService_clean (Some (prose @ CHR ''['' # mid @ [CHR '']'']))) = Some (JArr rs)"
  shows "GroqService_extractSpecs parse (CallReturned (Some (prose @ CHR ''['' # mid @ [CHR '']''])))
           = Inr (JArr rs)"
proof -
  let ?B = "CHR ''['' # mid @ [CHR '']'']"
  obtain p' where p': "GroqService_clean (Some (prose @ ?B)) = p' @ ?B" "set p' \<subseteq> set prose"
    using GroqService_clean_keep [of prose mid] by blast
  from p'(2) assms(1) have "CHR ''['' \<notin> set p'" by blast
  then have "bracketMatch (p' @ ?B @ []) = Some ?B"
    by (rule bracketMatch_between) simp
  then have bm: "bracketMatch (GroqService_clean (Some (prose @ ?B))) = Some ?B"
    by (simp add: p'(1))
  from assms(3) show ?thesis
  proof
    assume "parse (GroqService_clean (Some (prose @ ?B))) = None"
    from GroqService_fallback_array [OF this bm assms(2)] show ?thesis .
  next
    assume "parse (GroqService_clean (Some (prose @ ?B))) = Some (JArr rs)"
    then show ?thesis by (rule GroqService_parsed_array)
  qed
qed

lemma GroqService_not_json:
  assumes "parse (GroqService_clean reply) = None"
    and "\<forall>m. bracketMatch (GroqService_clean reply) = Some m \<longrightarrow> parse m = None"
  shows "GroqService_extractSpecs parse (CallReturned reply) = Inr (JArr [])"
  using assms
  by (cases "bracketMatch (GroqService_clean reply)")
     (simp_all add: GroqService_extractSpecs_def GroqService_parseResponse_def)

lemma OpenAIService_not_json:
  "parse (OpenAIService_jsonStr reply) = None \<Longrightarrow>
     OpenAIService_extractSpecs parse (CallReturned reply) = Inr (JArr [])"
  by (simp add: OpenAIService_extractSpecs_def OpenAIService_parseResponse_def)

section \<open>No confidence floor\<close>

text \<open>
  Claim C2, as the code has it.  \<^verbatim>\<open>extractSpecs\<close> applies no confidence filter: whenever the
  response text it hands to the parser is a JSON array, exactly that array is returned,
  whatever the confidence of its records.  The floor of 0.5 is an instruction in the prompt
  only.
\<close>

theorem extractSpecs_unfiltered:
  "(parse (GroqService_clean reply) = Some (JArr rs)
      \<longrightarrow> GroqService_extractSpecs parse (CallReturned reply) = Inr (JArr rs))
   \<and> (parse (OpenAIService_jsonStr reply) = Some (JArr rs)
      \<longrightarrow> OpenAIService_extractSpecs parse (CallReturned reply) = Inr (JArr rs))"
  using GroqService_parsed_array OpenAIService_parsed_array by blast

theorem extractSpecs_unfiltered_witness:
  "JSON_parse (GroqService_clean (Some lowConfidenceResponse)) = Some (JArr [lowConfidenceRecord])
   \<and> JSON_parse (OpenAIService_jsonStr (Some lowConfidenceResponse)) = Some (JArr [lowConfidenceRecord])
   \<and> GroqService_extractSpecs JSON_parse (CallReturned (Some lowConfidenceResponse))
       = Inr (JArr [lowConfidenceRecord])
   \<and> OpenAIService_extractSpecs JSON_parse (CallReturned (Some lowConfidenceResponse))
       = Inr (JArr [lowConfidenceRecord])"
  using extractSpecs_unfiltered [of JSON_parse "Some lowConfidenceResponse" "[lowConfidenceRecord]"]
    sample_parse(6,7)
  by blast

text \<open>
  The claim as worded: no emitted record has a confidence below 0.5.  A response whose only
  record has confidence 0.2 comes back from both services with that record in it.
\<close>

theorem extractSpecs_confidence_floor_counterexample:
  "GroqService_extractSpecs JSON_parse (CallReturned (Some lowConfidenceResponse))
     = Inr (JArr [lowConfidenceRecord])
   \<and> OpenAIService_extractSpecs JSON_parse (CallReturned (Some lowConfidenceResponse))
     = Inr (JArr [lowConfidenceRecord])
   \<and> confidence lowConfidenceRecord = Some (1 / 5)
   \<and> (1 / 5 :: real) < 0.5"
  using sample_extraction(1,2,3) by simp

section \<open>Malformed responses\<close>

text \<open>
  Claim C6, as the code has it.  The parse step of \<^verbatim>\<open>extractSpecs\<close> never raises.  A JSON
  array wrapped in a code fence (\<^verbatim>\<open>```json\<close> or \<^verbatim>\<open>```\<close>, each on a line of its own) is
  recovered.  An array that ends the response is recovered from behind leading prose
  provided the prose holds no opening bracket: the code parses the text from the first
  \<^verbatim>\<open>[\<close> to the last \<^verbatim>\<open>]\<close> of the response (the Groq service after the whole response has
  failed to parse, the OpenAI service at once).  A response of which neither the whole nor
  that bracketed part parses yields the empty list.
\<close>

theorem parseResponse_resilient:
  "(\<exists>v. GroqService_extractSpecs parse (CallReturned reply) = Inr v)
   \<and> (\<exists>v. OpenAIService_extractSpecs parse (CallReturned reply) = Inr v)
   \<and> (parse (CHR ''['' # mid @ [CHR '']'']) = Some (JArr rs) \<longrightarrow>
        GroqService_extractSpecs parse
          (CallReturned (Some (''```json\<newline>'' @ (CHR ''['' # mid @ [CHR '']'']) @ ''\<newline>```''))) = Inr (JArr rs)
        \<and> GroqService_extractSpecs parse
          (CallReturned (Some (''```\<newline>'' @ (CHR ''['' # mid @ [CHR '']'']) @ ''\<newline>```''))) = Inr (JArr rs)
        \<and> OpenAIService_extractSpecs parse
          (CallReturned (Some (''```json\<newline>'' @ (CHR ''['' # mid @ [CHR '']'']) @ ''\<newline>```''))) = Inr (JArr rs)
        \<and> OpenAIService_extractSpecs parse
          (CallReturned (Some (''```\<newline>'' @ (CHR ''['' # mid @ [CHR '']'']) @ ''\<newline>```''))) = Inr (JArr rs))
   \<and> (CHR ''['' \<notin> set prose \<and> parse (CHR ''['' # mid @ [CHR '']'']) = Some (JArr rs) \<longrightarrow>
        OpenAIService_extractSpecs parse (CallReturned (Some (prose @ CHR ''['' # mid @ [CHR '']'']))) = Inr (JArr rs)
        \<and> (parse (GroqService_clean (Some (prose @ CHR ''['' # mid @ [CHR '']'']))) = None
             \<or> parse (GroqService_clean (Some (prose @ CHR ''['' # mid @ [CHR '']'']))) = Some (JArr rs)
            \<longrightarrow> GroqService_extractSpecs parse (CallReturned (Some (prose @ CHR ''['' # mid @ [CHR '']'']))) = Inr (JArr rs)))
   \<and> (parse (GroqService_clean reply) = None
        \<and> (\<forall>m. bracketMatch (GroqService_clean reply) = Some m \<longrightarrow> parse m = None)
        \<longrightarrow> GroqService_extractSpecs parse (CallReturned reply) = Inr (JArr []))
   \<and> (parse (OpenAIService_jsonStr reply) = None
        \<longrightarrow> OpenAIService_extractSpecs parse (CallReturned reply) = Inr (JArr []))"
proof -
  let ?B = "CHR ''['' # mid @ [CHR '']'']"
  have fence: "GroqService_extractSpecs parse (CallReturned (Some (''```json\<newline>'' @ ?B @ ''\<newline>```''))) = Inr (JArr rs)"
      "GroqService_extractSpecs parse (CallReturned (Some (''```\<newline>'' @ ?B @ ''\<newline>```''))) = Inr (JArr rs)"
      "OpenAIService_extractSpecs parse (CallReturned (Some (''```json\<newline>'' @ ?B @ ''\<newline>```''))) = Inr (JArr rs)"
      "OpenAIService_extractSpecs parse (CallReturned (Some (''```\<newline>'' @ ?B @ ''\<newline>```''))) = Inr (JArr rs)"
    if p: "parse ?B = Some (JArr rs)"
  proof -
    show "GroqService_extractSpecs parse (CallReturned (Some (''```json\<newline>'' @ ?B @ ''\<newline>```''))) = Inr (JArr rs)"
      by (rule GroqService_parsed_array) (simp only: GroqService_clean_fenced p)
    show "GroqService_extractSpecs parse (CallReturned (Some (''```\<newline>'' @ ?B @ ''\<newline>```''))) = Inr (JArr rs)"
      by (rule GroqService_parsed_array) (simp only: GroqService_clean_fenced p)
    have j1: "OpenAIService_jsonStr (Some (''```json\<newline>'' @ ?B @ ''\<newline>```'')) = ?B"
      by (rule OpenAIService_jsonStr_between) simp_all
    have j2: "OpenAIService_jsonStr (Some (''```\<newline>'' @ ?B @ ''\<newline>```'')) = ?B"
      by (rule OpenAIService_jsonStr_between) simp_all
    show "OpenAIService_extractSpecs parse (CallReturned (Some (''```json\<newline>'' @ ?B @ ''\<newline>```''))) = Inr (JArr rs)"
      by (rule OpenAIService_parsed_array) (simp only: j1 p)
    show "OpenAIService_extractSpecs parse (CallReturned (Some (''```\<newline>'' @ ?B @ ''\<newline>```''))) = Inr (JArr rs)"
      by (rule OpenAIService_parsed_array) (simp only: j2 p)
  qed
  have prose_o: "OpenAIService_extractSpecs parse (CallReturned (Some (prose @ ?B))) = Inr (JArr rs)"
    if "CHR ''['' \<notin> set prose" "parse ?B = Some (JArr rs)"
  proof -
    have "OpenAIService_jsonStr (Some (prose @ ?B @ [])) = ?B"
      using that(1) by (rule OpenAIService_jsonStr_between) simp
    then have "parse (OpenAIService_jsonStr (Some (prose @ ?B))) = Some (JArr rs)"
      using that(2) by simp
    then show ?thesis by (rule OpenAIService_parsed_array)
  qed
  show ?thesis
    using extractSpecs_returns [of parse reply] fence prose_o
      GroqService_prose [of prose parse mid rs]
      GroqService_not_json [of parse reply] OpenAIService_not_json [of parse reply]
    by blast
qed

theorem parseResponse_resilient_witness:
  "JSON_parse (CHR ''['' # torqueInner @ [CHR '']'']) = Some (JArr [torqueRecord])
   \<and> GroqService_extractSpecs JSON_parse
        (CallReturned (Some (''```json\<newline>'' @ (CHR ''['' # torqueInner @ [CHR '']'']) @ ''\<newline>```'')))
       = Inr (JArr [torqueRecord])
   \<and> OpenAIService_extractSpecs JSON_parse
        (CallReturned (Some (''```json\<newline>'' @ (CHR ''['' # torqueInner @ [CHR '']'']) @ ''\<newline>```'')))
       = Inr (JArr [torqueRecord])
   \<and> CHR ''['' \<notin> set ''Here are the specs: ''
   \<and> JSON_parse (GroqService_clean (Some (''Here are the specs: '' @ CHR ''['' # torqueInner @ [CHR '']'']))) = None
   \<and> GroqService_extractSpecs JSON_parse
        (CallReturned (Some (''Here are the specs: '' @ CHR ''['' # torqueInner @ [CHR '']''])))
       = Inr (JArr [torqueRecord])
   \<and> OpenAIService_extractSpecs JSON_parse
        (CallReturned (Some (''Here are the specs: '' @ CHR ''['' # torqueInner @ [CHR '']''])))
       = Inr (JArr [torqueRecord])
   \<and> JSON_parse (GroqService_clean (Some apology)) = None
   \<and> bracketMatch (GroqService_clean (Some apology)) = None
   \<and> GroqService_extractSpecs JSON_parse (CallReturned (Some apology)) = Inr (JArr [])
   \<and> JSON_parse (OpenAIService_jsonStr (Some apology)) = None
   \<and> OpenAIService_extractSpecs JSON_parse (CallReturned (Some apology)) = Inr (JArr [])"
proof -
  have nb: "CHR ''['' \<notin> set ''Here are the specs: ''" by simp
  have nm: "\<forall>m. bracketMatch (GroqService_clean (Some apology)) = Some m \<longrightarrow> JSON_parse m = None"
    by (simp add: sample_parse(4))
  note t = parseResponse_resilient [of JSON_parse "Some apology" torqueInner "[torqueRecord]"
      "''Here are the specs: ''"]
  show ?thesis
    using t nb nm sample_parse(1,2,3,4,5) by blast
qed

text \<open>
  The claim as worded recovers the array from behind any leading prose.  When the prose
  itself holds a bracket, the text from the first \<^verbatim>\<open>[\<close> to the last \<^verbatim>\<open>]\<close> is not JSON and
  both services return the empty list, although the array alone parses.
\<close>

theorem parseResponse_bracketed_prose_counterexample:
  "JSON_parse (CHR ''['' # torqueInner @ [CHR '']'']) = Some (JArr [torqueRecord])
   \<and> GroqService_extractSpecs JSON_parse
        (CallReturned (Some (''Specs [page 14]: '' @ CHR ''['' # torqueInner @ [CHR '']''])))
       = Inr (JArr [])
   \<and> OpenAIService_extractSpecs JSON_parse
        (CallReturned (Some (''Specs [page 14]: '' @ CHR ''['' # torqueInner @ [CHR '']''])))
       = Inr (JArr [])
   \<and> JArr [torqueRecord] \<noteq> JArr []"
  using sample_parse(1) sample_extraction(4,5) by simp

section \<open>Failures of the extraction call\<close>

lemma sample_failures:
  "js_includes ''401 Unauthorized'' ''401''"
  "\<not> (js_includes ''Request failed with status 429'' ''401''
      \<or> js_includes ''Request failed with status 429'' ''invalid_api_key'')"
  "js_includes ''Request failed with status 429'' ''429''"
  "\<not> (js_includes ''socket hang up'' ''401'' \<or> js_includes ''socket hang up'' ''invalid_api_key'')"
  "\<not> (js_includes ''socket hang up'' ''429'' \<or> js_includes ''socket hang up'' ''rate_limit'')"
  by simp_all

lemma sample_call_failures:
  "GroqService_extractSpecs JSON_parse (CallFailed (Some ''401 Unauthorized''))
     = Inl \<lparr>name = ''Error'',
            message = ''Invalid Groq API key. Check GROQ_API_KEY in your .env.local file.''\<rparr>"
  "OpenAIService_extractSpecs JSON_parse (CallFailed (Some ''401 Unauthorized''))
     = Inl \<lparr>name = ''Error'', message = ''LLM extraction failed: 401 Unauthorized''\<rparr>"
  "OpenAIService_extractSpecs JSON_parse (CallFailed (Some ''Request failed with status 429''))
     = Inl \<lparr>name = ''Error'', message = ''LLM extraction failed: Request failed with status 429''\<rparr>"
  by (simp_all add: GroqService_extractSpecs_def OpenAIService_extractSpecs_def Error_def)

text \<open>
  Claim C7, as the code has it.  When the extraction call fails, \<^verbatim>\<open>GroqService.extractSpecs\<close>
  raises a plain \<^verbatim>\<open>Error\<close> and tells the failures apart by its message only: a failure whose
  message contains \<^verbatim>\<open>401\<close> or \<^verbatim>\<open>invalid_api_key\<close> gives the invalid-key message; otherwise one
  whose message contains \<^verbatim>\<open>429\<close> or \<^verbatim>\<open>rate_limit\<close> gives the rate-limit message; any other
  failure gives \<^verbatim>\<open>LLM extraction failed:\<close> followed by the underlying message.  Every error
  it raises comes from a failed call and has the name \<^verbatim>\<open>Error\<close>.  In both services a response
  that cannot be parsed is never raised as an error.
\<close>

theorem extractSpecs_call_failure:
  "(js_includes msg ''401'' \<or> js_includes msg ''invalid_api_key'' \<longrightarrow>
      GroqService_extractSpecs parse (CallFailed (Some msg))
        = Inl (Error ''Invalid Groq API key. Check GROQ_API_KEY in your .env.local file.''))
   \<and> (\<not> (js_includes msg ''401'' \<or> js_includes msg ''invalid_api_key'')
        \<and> (js_includes msg ''429'' \<or> js_includes msg ''rate_limit'') \<longrightarrow>
      GroqService_extractSpecs parse (CallFailed (Some msg))
        = Inl (Error ''Groq rate limit hit. Wait 30 seconds and try again.''))
   \<and> (\<not> (js_includes msg ''401'' \<or> js_includes msg ''invalid_api_key'')
        \<and> \<not> (js_includes msg ''429'' \<or> js_includes msg ''rate_limit'') \<longrightarrow>
      GroqService_extractSpecs parse (CallFailed (Some msg))
        = Inl (Error (''LLM extraction failed: '' @ msg)))
   \<and> GroqService_extractSpecs parse (CallFailed None) = Inl (Error ''LLM extraction failed: '')
   \<and> (\<forall>e. GroqService_extractSpecs parse outcome = Inl e \<longrightarrow>
          name e = ''Error'' \<and> (\<exists>m. outcome = CallFailed m))
   \<and> (\<exists>v. GroqService_extractSpecs parse (CallReturned reply) = Inr v)
   \<and> (\<exists>v. OpenAIService_extractSpecs parse (CallReturned reply) = Inr v)"
proof -
  have none: "GroqService_extractSpecs parse (CallFailed None) = Inl (Error ''LLM extraction failed: '')"
    by (simp add: GroqService_extractSpecs_def)
  have named: "name e = ''Error'' \<and> (\<exists>m. outcome = CallFailed m)"
    if "GroqService_extractSpecs parse outcome = Inl e" for e
    using that
    by (cases outcome) (auto simp: GroqService_extractSpecs_def Error_def Let_def split: if_splits)
  show ?thesis
    using none named extractSpecs_returns [of parse reply]
    by (simp add: GroqService_extractSpecs_def)
qed

theorem extractSpecs_call_failure_witness:
  "js_includes ''401 Unauthorized'' ''401''
   \<and> GroqService_extractSpecs JSON_parse (CallFailed (Some ''401 Unauthorized''))
       = Inl (Error ''Invalid Groq API key. Check GROQ_API_KEY in your .env.local file.'')
   \<and> \<not> js_includes ''Request failed with status 429'' ''401''
   \<and> \<not> js_includes ''Request failed with status 429'' ''invalid_api_key''
   \<and> js_includes ''Request failed with status 429'' ''429''
   \<and> GroqService_extractSpecs JSON_parse (CallFailed (Some ''Request failed with status 429''))
       = Inl (Error ''Groq rate limit hit. Wait 30 seconds and try again.'')
   \<and> \<not> js_includes ''socket hang up'' ''401''
   \<and> \<not> js_includes ''socket hang up'' ''invalid_api_key''
   \<and> \<not> js_includes ''socket hang up'' ''429''
   \<and> \<not> js_includes ''socket hang up'' ''rate_limit''
   \<and> GroqService_extractSpecs JSON_parse (CallFailed (Some ''socket hang up''))
       = Inl (Error ''LLM extraction failed: socket hang up'')"
proof -
  from extractSpecs_call_failure [of "''401 Unauthorized''" JSON_parse] sample_failures(1)
  have a: "GroqService_extractSpecs JSON_parse (CallFailed (Some ''401 Unauthorized''))
       = Inl (Error ''Invalid Groq API key. Check GROQ_API_KEY in your .env.local file.'')"
    by blast
  from extractSpecs_call_failure [of "''Request failed with status 429''" JSON_parse]
    sample_failures(2,3)
  have b: "GroqService_extractSpecs JSON_parse (CallFailed (Some ''Request failed with status 429''))
       = Inl (Error ''Groq rate limit hit. Wait 30 seconds and try again.'')"
    by blast
  from extractSpecs_call_failure [of "''socket hang up''" JSON_parse] sample_failures(4,5)
  have "GroqService_extractSpecs JSON_parse (CallFailed (Some ''socket hang up''))
       = Inl (Error (''LLM extraction failed: '' @ ''socket hang up''))"
    by blast
  then have c: "GroqService_extractSpecs JSON_parse (CallFailed (Some ''socket hang up''))
       = Inl (Error ''LLM extraction failed: socket hang up'')"
    by simp
  show ?thesis
    using a b c sample_failures by blast
qed

text \<open>
  The claim as worded has typed errors.  An authentication failure makes the Groq service
  raise an object named \<^verbatim>\<open>Error\<close>, not \<^verbatim>\<open>InvalidCredentialsError\<close>; the OpenAI service
  wraps an authentication failure and a rate-limit failure alike as
  \<^verbatim>\<open>LLM extraction failed: ...\<close>.
\<close>

theorem extractSpecs_typed_errors_counterexample:
  "GroqService_extractSpecs JSON_parse (CallFailed (Some ''401 Unauthorized''))
     = Inl \<lparr>name = ''Error'',
            message = ''Invalid Groq API key. Check GROQ_API_KEY in your .env.local file.''\<rparr>
   \<and> ''Error'' \<noteq> ''InvalidCredentialsError''
   \<and> OpenAIService_extractSpecs JSON_parse (CallFailed (Some ''401 Unauthorized''))
     = Inl \<lparr>name = ''Error'', message = ''LLM extraction failed: 401 Unauthorized''\<rparr>
   \<and> OpenAIService_extractSpecs JSON_parse (CallFailed (Some ''Request failed with status 429''))
     = Inl \<lparr>name = ''Error'', message = ''LLM extraction failed: Request failed with status 429''\<rparr>"
  using sample_call_failures by simp

end
